theory Spec2Isabelle
  imports Main
begin

section \<open>Python values shared by both scrapers\<close>

text \<open>
  The repository holds two scripts, \<^verbatim>\<open>dailymail.py\<close> and \<^verbatim>\<open>guardian.py\<close>. Both drive
  \<^verbatim>\<open>html.parser.HTMLParser\<close> and use \<^verbatim>\<open>urllib.parse\<close>. Python strings are modelled as
  \<open>string\<close>, read as sequences of code points below 256. Names keep those of the
  source; a leading underscore is dropped (\<^verbatim>\<open>_parse_srcset\<close> is \<open>parse_srcset\<close>), and the
  functions of the Guardian script that share a name with the Daily Mail script carry the
  prefix \<open>g_\<close>, those of the Daily Mail script \<open>dm_\<close>.
\<close>

datatype error = ValueError | TypeError | IndexError

subsection \<open>The standard library, as parameters\<close>

text \<open>
  The result of \<^verbatim>\<open>urllib.parse.urlparse\<close>: a six-field named tuple.
\<close>

record url_parts =
  scheme :: string
  netloc :: string
  path :: string
  params :: string
  query :: string
  fragment :: string

text \<open>
  Library functions whose code is not part of the repository are parameters of the
  model, so every theorem holds whatever they compute. \<^verbatim>\<open>urljoin\<close> and \<^verbatim>\<open>urlparse\<close> raise
  \<^verbatim>\<open>ValueError\<close> on some malformed hosts, hence their sum types. \<open>float_of_str\<close> is
  \<^verbatim>\<open>float(s)\<close> with \<open>None\<close> for \<^verbatim>\<open>ValueError\<close>, over a type \<open>'f\<close> of floats compared by
  \<open>float_gt\<close> (Python's \<^verbatim>\<open>>\<close>). \<open>unescape\<close> is \<^verbatim>\<open>html.unescape\<close>.
  \<open>int_max_str_digits\<close> is the interpreter's setting \<^verbatim>\<open>sys.get_int_max_str_digits()\<close>,
  4300 unless changed and 0 for no limit.
\<close>

record 'f stdlib =
  urljoin :: "string \<Rightarrow> string \<Rightarrow> error + string"
  urlparse :: "string \<Rightarrow> error + url_parts"
  urlunparse :: "url_parts \<Rightarrow> string"
  parse_qs :: "string \<Rightarrow> (string \<times> string list) list"
  urlencode :: "(string \<times> string) list \<Rightarrow> string"
  float_of_str :: "string \<Rightarrow> 'f option"
  float_gt :: "'f \<Rightarrow> 'f \<Rightarrow> bool"
  unescape :: "string \<Rightarrow> string"
  int_max_str_digits :: nat

subsection \<open>String methods\<close>

text \<open>\<^verbatim>\<open>str.isspace\<close> on one code point below 256.\<close>

definition isspace :: "char \<Rightarrow> bool" where
  "isspace c =
     (let n = (of_char c :: nat)
      in (9 \<le> n \<and> n \<le> 13) \<or> (28 \<le> n \<and> n \<le> 32) \<or> n = 133 \<or> n = 160)"

definition isdigit :: "char \<Rightarrow> bool" where
  "isdigit c = (let n = (of_char c :: nat) in 48 \<le> n \<and> n \<le> 57)"

definition lower_char :: "char \<Rightarrow> char" where
  "lower_char c =
     (let n = (of_char c :: nat)
      in if (65 \<le> n \<and> n \<le> 90) \<or> (192 \<le> n \<and> n \<le> 222 \<and> n \<noteq> 215)
         then char_of (n + 32) else c)"

definition lower :: "string \<Rightarrow> string" where
  "lower s = map lower_char s"

definition strip :: "string \<Rightarrow> string" where
  "strip s = rev (dropWhile isspace (rev (dropWhile isspace s)))"

definition startswith :: "string \<Rightarrow> string \<Rightarrow> bool" where
  "startswith s pre = (take (length pre) s = pre)"

definition endswith :: "string \<Rightarrow> string \<Rightarrow> bool" where
  "endswith s suf = (length suf \<le> length s \<and> drop (length s - length suf) s = suf)"

text \<open>\<^verbatim>\<open>sub in s\<close>.\<close>

fun contains :: "string \<Rightarrow> string \<Rightarrow> bool" where
  "contains sub [] = (sub = [])"
| "contains sub (c # cs) = (startswith (c # cs) sub \<or> contains sub cs)"

text \<open>
  \<^verbatim>\<open>s.split(sep)\<close> for a one-character separator; \<open>cur\<close> is the piece being read. The
  result is never empty: \<^verbatim>\<open>"".split(",")\<close> is \<^verbatim>\<open>[""]\<close>.
\<close>

fun split_on :: "char \<Rightarrow> string \<Rightarrow> string \<Rightarrow> string list" where
  "split_on sep cur [] = [cur]"
| "split_on sep cur (c # cs) =
     (if c = sep then cur # split_on sep [] cs else split_on sep (cur @ [c]) cs)"

text \<open>\<^verbatim>\<open>s.split()\<close>: the maximal runs of non-whitespace, none of them empty.\<close>

fun split_ws_from :: "string \<Rightarrow> string \<Rightarrow> string list" where
  "split_ws_from cur [] = (if cur = [] then [] else [cur])"
| "split_ws_from cur (c # cs) =
     (if isspace c
      then (if cur = [] then split_ws_from [] cs else cur # split_ws_from [] cs)
      else split_ws_from (cur @ [c]) cs)"

definition split_ws :: "string \<Rightarrow> string list" where
  "split_ws s = split_ws_from [] s"

subsection \<open>Integers and their text\<close>

definition digit_val :: "char \<Rightarrow> nat" where
  "digit_val c = of_char c - 48"

definition digits_val :: "string \<Rightarrow> nat" where
  "digits_val ds = fold (\<lambda>c n. 10 * n + digit_val c) ds 0"

text \<open>
  The digit part of a decimal literal accepted by \<^verbatim>\<open>int(s)\<close>: digits, with single
  underscores between digits only. \<open>prev\<close> says whether the previous character was a
  digit.
\<close>

fun int_body_ok :: "bool \<Rightarrow> string \<Rightarrow> bool" where
  "int_body_ok prev [] = prev"
| "int_body_ok prev (c # cs) =
     (if isdigit c then int_body_ok True cs
      else if c = CHR ''_'' then prev \<and> int_body_ok False cs
      else False)"

text \<open>
  \<^verbatim>\<open>int(s)\<close> in base ten, \<open>None\<close> for \<^verbatim>\<open>ValueError\<close>: surrounding whitespace is dropped,
  one sign is allowed. With a limit \<open>lim\<close> set, a literal of more than 640 digits and more
  than \<open>lim\<close> digits is refused.
\<close>

definition py_int :: "nat \<Rightarrow> string \<Rightarrow> int option" where
  "py_int lim s =
     (let t = strip s;
          neg = (t \<noteq> [] \<and> hd t = CHR ''-'');
          body = (if t \<noteq> [] \<and> (hd t = CHR ''-'' \<or> hd t = CHR ''+'') then tl t else t);
          ds = filter isdigit body;
          v = int (digits_val ds)
      in if int_body_ok False body \<and> \<not> (0 < lim \<and> 640 < length ds \<and> lim < length ds)
         then Some (if neg then - v else v) else None)"

text \<open>\<^verbatim>\<open>str(n)\<close>, as used by the f-strings that build the file names.\<close>

function str_nat :: "nat \<Rightarrow> string" where
  "str_nat n =
     (if n < 10 then [char_of (48 + n)]
      else str_nat (n div 10) @ [char_of (48 + n mod 10)])"
  by pat_completeness auto
termination
  by (relation "measure id") auto

declare str_nat.simps [simp del]

definition str_int :: "int \<Rightarrow> string" where
  "str_int i = (if i < 0 then CHR ''-'' # str_nat (nat (- i)) else str_nat (nat i))"

subsection \<open>Python's \<^verbatim>\<open>max(xs, key=...)\<close>\<close>

text \<open>
  \<^verbatim>\<open>max\<close> keeps the first item and replaces it only by a later item whose key is
  strictly greater; on an empty sequence it raises \<^verbatim>\<open>ValueError\<close>.
\<close>

fun py_max_loop :: "('k \<Rightarrow> 'k \<Rightarrow> bool) \<Rightarrow> ('a \<Rightarrow> 'k) \<Rightarrow> 'a \<Rightarrow> 'a list \<Rightarrow> 'a" where
  "py_max_loop gt key m [] = m"
| "py_max_loop gt key m (x # xs) =
     py_max_loop gt key (if gt (key x) (key m) then x else m) xs"

definition py_max :: "('k \<Rightarrow> 'k \<Rightarrow> bool) \<Rightarrow> ('a \<Rightarrow> 'k) \<Rightarrow> 'a list \<Rightarrow> error + 'a" where
  "py_max gt key xs =
     (case xs of [] \<Rightarrow> Inl ValueError | x # rest \<Rightarrow> Inr (py_max_loop gt key x rest))"

section \<open>Daily Mail: candidate parser and selector\<close>

text \<open>A candidate is the tuple \<^verbatim>\<open>(url, width, density)\<close> of \<^verbatim>\<open>_parse_srcset\<close>.\<close>

type_synonym 'f candidate = "string \<times> int option \<times> 'f option"

text \<open>
  The body of the loop of \<^verbatim>\<open>_parse_srcset\<close> for one comma-separated part; \<open>out\<close> is the
  list built so far. \<^verbatim>\<open>bits[0]\<close> on an empty list would raise \<^verbatim>\<open>IndexError\<close>.
\<close>

definition parse_srcset_part ::
  "'f stdlib \<Rightarrow> 'f candidate list \<Rightarrow> string \<Rightarrow> error + 'f candidate list" where
  "parse_srcset_part L out part =
     (let token = strip part
      in if token = [] then Inr out
         else (case split_ws token of
                 [] \<Rightarrow> Inl IndexError
               | url # others \<Rightarrow>
                   (case others of
                      [] \<Rightarrow> Inr (out @ [(url, None, None)])
                    | d # _ \<Rightarrow>
                        (let desc = lower d
                         in if endswith desc ''w''
                            then Inr (out @ [(url, py_int (int_max_str_digits L) (butlast desc), None)])
                            else if endswith desc ''x''
                            then Inr (out @ [(url, None, float_of_str L (butlast desc))])
                            else Inr (out @ [(url, None, None)])))))"

fun parse_srcset_loop ::
  "'f stdlib \<Rightarrow> 'f candidate list \<Rightarrow> string list \<Rightarrow> error + 'f candidate list" where
  "parse_srcset_loop L out [] = Inr out"
| "parse_srcset_loop L out (p # ps) =
     (case parse_srcset_part L out p of
        Inl e \<Rightarrow> Inl e
      | Inr out' \<Rightarrow> parse_srcset_loop L out' ps)"

definition parse_srcset :: "'f stdlib \<Rightarrow> string \<Rightarrow> error + 'f candidate list" where
  "parse_srcset L srcset =
     (if srcset = [] then Inr []
      else parse_srcset_loop L [] (split_on (CHR '','') [] srcset))"

text \<open>
  \<^verbatim>\<open>SIZE_IN_NAME_RE = (?<!\d)(\d{3,5})[xX](\d{3,5})(?!\d)\<close>. Anchored at a position whose
  predecessor is no digit, the first group can only be the whole run of digits there (a
  shorter one would be followed by a digit, not by \<^verbatim>\<open>x\<close>), and the look-ahead forces the
  same for the second group. \<open>size_match_at\<close> is the match anchored at the head of its
  argument, \<open>size_search\<close> is \<^verbatim>\<open>re.search\<close>: the leftmost position that matches, where
  \<open>prev\<close> tells whether the character before is a digit. \<^verbatim>\<open>int\<close> of a group, at most
  five digits, is the value of the digits.
\<close>

definition size_match_at :: "string \<Rightarrow> (string \<times> string) option" where
  "size_match_at s =
     (let d1 = takeWhile isdigit s; r1 = dropWhile isdigit s
      in if 3 \<le> length d1 \<and> length d1 \<le> 5
         then (case r1 of
                 [] \<Rightarrow> None
               | c # r2 \<Rightarrow>
                   if c = CHR ''x'' \<or> c = CHR ''X''
                   then (let d2 = takeWhile isdigit r2
                         in if 3 \<le> length d2 \<and> length d2 \<le> 5 then Some (d1, d2) else None)
                   else None)
         else None)"

fun size_search :: "bool \<Rightarrow> string \<Rightarrow> (string \<times> string) option" where
  "size_search prev [] = None"
| "size_search prev (c # cs) =
     (if prev then size_search (isdigit c) cs
      else (case size_match_at (c # cs) of
              Some m \<Rightarrow> Some m
            | None \<Rightarrow> size_search (isdigit c) cs))"

definition score_url :: "string \<Rightarrow> int" where
  "score_url u =
     (case size_search False u of
        Some (w, h) \<Rightarrow> int (digits_val w) * int (digits_val h)
      | None \<Rightarrow> int (length u))"

text \<open>
  \<^verbatim>\<open>_pick_largest\<close>. The comprehension \<^verbatim>\<open>[c for c in candidates if c[1] is not None]\<close>
  is kept together with the key it is compared by, so that no key is read from \<open>None\<close>.
\<close>

definition with_w :: "'f candidate list \<Rightarrow> ('f candidate \<times> int) list" where
  "with_w candidates =
     List.map_filter (\<lambda>c. case fst (snd c) of None \<Rightarrow> None | Some w \<Rightarrow> Some (c, w)) candidates"

definition with_x :: "'f candidate list \<Rightarrow> ('f candidate \<times> 'f) list" where
  "with_x candidates =
     List.map_filter (\<lambda>c. case snd (snd c) of None \<Rightarrow> None | Some x \<Rightarrow> Some (c, x)) candidates"

definition join_some :: "'f stdlib \<Rightarrow> string \<Rightarrow> string \<Rightarrow> error + string option" where
  "join_some L base_url url =
     (case urljoin L base_url url of Inl e \<Rightarrow> Inl e | Inr r \<Rightarrow> Inr (Some r))"

definition pick_largest :: "'f stdlib \<Rightarrow> 'f candidate list \<Rightarrow> string \<Rightarrow> error + string option" where
  "pick_largest L candidates base_url =
     (if candidates = [] then Inr None
      else if with_w candidates \<noteq> []
      then (case py_max (\<lambda>a b. b < a) snd (with_w candidates) of
              Inl e \<Rightarrow> Inl e
            | Inr cw \<Rightarrow> join_some L base_url (fst (fst cw)))
      else if with_x candidates \<noteq> []
      then (case py_max (float_gt L) snd (with_x candidates) of
              Inl e \<Rightarrow> Inl e
            | Inr cx \<Rightarrow> join_some L base_url (fst (fst cx)))
      else (case py_max (\<lambda>a b. b < a) score_url (map fst candidates) of
              Inl e \<Rightarrow> Inl e
            | Inr url \<Rightarrow> join_some L base_url url))"

section \<open>Daily Mail: file extension\<close>

text \<open>\<^verbatim>\<open>os.path.basename\<close>: what follows the last slash.\<close>

definition basename :: "string \<Rightarrow> string" where
  "basename p = rev (takeWhile (\<lambda>c. c \<noteq> CHR ''/'') (rev p))"

text \<open>
  \<^verbatim>\<open>IMG_EXT_RE = \.(jpg|jpeg|png|webp)(?:$|\?)\<close> with \<^verbatim>\<open>re.IGNORECASE\<close>. \<^verbatim>\<open>$\<close> matches at
  the end of the string and before a newline that ends it. \<open>img_ext_at\<close> is the match
  anchored at the head of its argument and returns group 1; \<open>img_ext_search\<close> is
  \<^verbatim>\<open>re.search\<close>.
\<close>

definition end_or_query :: "string \<Rightarrow> bool" where
  "end_or_query r = (r = [] \<or> r = [CHR 0x0A] \<or> (r \<noteq> [] \<and> hd r = CHR ''?''))"

definition img_ext_at :: "string \<Rightarrow> string option" where
  "img_ext_at s =
     (case s of
        [] \<Rightarrow> None
      | c # r \<Rightarrow>
          if c = CHR ''.''
          then (case find (\<lambda>e. startswith (lower r) e \<and> end_or_query (drop (length e) r))
                       [''jpg'', ''jpeg'', ''png'', ''webp''] of
                  None \<Rightarrow> None
                | Some e \<Rightarrow> Some (take (length e) r))
          else None)"

fun img_ext_search :: "string \<Rightarrow> string option" where
  "img_ext_search [] = None"
| "img_ext_search (c # cs) =
     (case img_ext_at (c # cs) of Some g \<Rightarrow> Some g | None \<Rightarrow> img_ext_search cs)"

definition ext_from_url :: "'f stdlib \<Rightarrow> string \<Rightarrow> error + string" where
  "ext_from_url L u =
     (case urlparse L u of
        Inl e \<Rightarrow> Inl e
      | Inr parsed \<Rightarrow>
          (let name = basename (path parsed)
           in if name \<noteq> []
              then (case img_ext_search name of
                      Some g \<Rightarrow>
                        (let ext = lower g
                         in Inr (CHR ''.'' # (if ext = ''jpeg'' then ''jpg'' else ext)))
                    | None \<Rightarrow> Inr ''.jpg'')
              else Inr ''.jpg''))"

section \<open>Guardian: helpers\<close>

text \<open>
  \<^verbatim>\<open>SRCSET_SPLIT = \s*,\s*\<close>, applied to the stripped text: the separators are the commas
  with the whitespace around them, so the parts are the comma-separated pieces, each
  without the whitespace at its ends.
\<close>

definition srcset_split :: "string \<Rightarrow> string list" where
  "srcset_split s = map strip (split_on (CHR '','') [] s)"

text \<open>
  \<^verbatim>\<open>CANDIDATE = ^\s*(\S+)\s+(\d+)(w|x)?\s*$\<close> with \<^verbatim>\<open>match\<close>: the part has exactly two
  words, and the second is a run of digits with at most one \<^verbatim>\<open>w\<close> or \<^verbatim>\<open>x\<close> behind it. The
  result is groups 1 and 2.
\<close>

definition candidate_match :: "string \<Rightarrow> (string \<times> string) option" where
  "candidate_match part =
     (case split_ws part of
        [u, d] \<Rightarrow>
          (let ds = takeWhile isdigit d; unit = dropWhile isdigit d
           in if ds \<noteq> [] \<and> (unit = [] \<or> unit = ''w'' \<or> unit = ''x'') then Some (u, ds)
              else None)
      | _ \<Rightarrow> None)"

text \<open>
  The loop of \<^verbatim>\<open>best_from_srcset\<close>. A part that is no candidate and is not empty ends
  the function at once with that part, joined to the base. \<^verbatim>\<open>int\<close> of group 2 is outside
  any \<^verbatim>\<open>try\<close>: its \<^verbatim>\<open>ValueError\<close> on a run of digits beyond the limit leaves the function.
\<close>

fun best_loop ::
  "'f stdlib \<Rightarrow> string \<Rightarrow> string option \<Rightarrow> int \<Rightarrow> string list \<Rightarrow> error + string option" where
  "best_loop L base_url best_url best_size [] = Inr best_url"
| "best_loop L base_url best_url best_size (part # parts) =
     (case candidate_match part of
        Some (u, ds) \<Rightarrow>
          (case py_int (int_max_str_digits L) ds of
             None \<Rightarrow> Inl ValueError
           | Some sz \<Rightarrow>
               if sz > best_size
               then (case urljoin L base_url u of
                       Inl e \<Rightarrow> Inl e
                     | Inr r \<Rightarrow> best_loop L base_url (Some r) sz parts)
               else best_loop L base_url best_url best_size parts)
      | None \<Rightarrow>
          (let p = strip part
           in if p \<noteq> [] then join_some L base_url p
              else best_loop L base_url best_url best_size parts))"

definition best_from_srcset :: "'f stdlib \<Rightarrow> string \<Rightarrow> string \<Rightarrow> error + string option" where
  "best_from_srcset L srcset base_url =
     (if srcset = [] then Inr None
      else best_loop L base_url None (- 1) (srcset_split (strip srcset)))"

text \<open>
  \<^verbatim>\<open>os.path.splitext(p)[1]\<close>: from the last dot of the last component, provided a
  character other than a dot stands before it in that component; else empty.
\<close>

definition splitext_ext :: "string \<Rightarrow> string" where
  "splitext_ext p =
     (let name = basename p; e = takeWhile (\<lambda>c. c \<noteq> CHR ''.'') (rev name)
      in if length e < length name \<and>
            list_ex (\<lambda>c. c \<noteq> CHR ''.'') (take (length name - length e - 1) name)
         then CHR ''.'' # rev e else [])"

definition IMG_EXTS :: "string list" where
  "IMG_EXTS = [''.jpg'', ''.jpeg'', ''.png'', ''.webp'', ''.gif'']"

definition safe_ext :: "'f stdlib \<Rightarrow> string \<Rightarrow> error + string" where
  "safe_ext L u =
     (case urlparse L u of
        Inl e \<Rightarrow> Inl e
      | Inr parsed \<Rightarrow>
          (let ext = lower (splitext_ext (path parsed))
           in Inr (if ext \<in> set IMG_EXTS then ext else ''.jpg'')))"

text \<open>The bare \<^verbatim>\<open>except\<close> of \<^verbatim>\<open>keep_guardian_cdn\<close> turns every error into \<open>False\<close>.\<close>

definition keep_guardian_cdn :: "'f stdlib \<Rightarrow> string \<Rightarrow> bool" where
  "keep_guardian_cdn L u =
     (case urlparse L u of
        Inl e \<Rightarrow> False
      | Inr parsed \<Rightarrow> endswith (lower (netloc parsed)) ''i.guim.co.uk'')"

text \<open>
  A dictionary that keeps insertion order, as Python's does: assigning to a key that is
  present keeps its place. \<open>first_values\<close> is \<^verbatim>\<open>{k: v[0] for k, v in q.items()}\<close>.
\<close>

fun dict_set :: "('k \<times> 'v) list \<Rightarrow> 'k \<Rightarrow> 'v \<Rightarrow> ('k \<times> 'v) list" where
  "dict_set [] k v = [(k, v)]"
| "dict_set ((k', v') # kvs) k v =
     (if k' = k then (k, v) # kvs else (k', v') # dict_set kvs k v)"

fun first_values :: "(string \<times> string list) list \<Rightarrow> error + (string \<times> string) list" where
  "first_values [] = Inr []"
| "first_values ((k, v) # kvs) =
     (case v of
        [] \<Rightarrow> Inl IndexError
      | x # _ \<Rightarrow> (case first_values kvs of Inl e \<Rightarrow> Inl e | Inr r \<Rightarrow> Inr ((k, x) # r)))"

definition upgrade_guardian_url :: "'f stdlib \<Rightarrow> string \<Rightarrow> int \<Rightarrow> error + string" where
  "upgrade_guardian_url L url width =
     (if \<not> contains ''i.guim.co.uk'' url then Inr url
      else (case urlparse L url of
              Inl e \<Rightarrow> Inl e
            | Inr parsed \<Rightarrow>
                if contains ''s='' (lower (query parsed)) then Inr url
                else (let q0 = parse_qs L (query parsed);
                          q1 = dict_set q0 ''width'' [str_int width];
                          q2 = dict_set q1 ''dpr'' [''2'']
                      in case first_values q2 of
                           Inl e \<Rightarrow> Inl e
                         | Inr kv \<Rightarrow>
                             Inr (urlunparse L (parsed\<lparr>query := urlencode L kv\<rparr>)))))"

section \<open>Daily Mail: the parser\<close>

text \<open>
  \<^verbatim>\<open>HTMLParser.feed\<close> turns the page into calls of the handlers, in document order. The
  tokenizer is the library's; the model starts from its calls. An attribute without a
  value arrives with the value \<^verbatim>\<open>None\<close>.
\<close>

type_synonym attrs = "(string \<times> string option) list"

datatype event = StartTag string attrs | EndTag string | Data string

text \<open>
  \<^verbatim>\<open>dict(attrs).get(k)\<close>: of two pairs with one key the later wins; a missing key and
  the value \<^verbatim>\<open>None\<close> both give \<open>None\<close>. \<open>attr_key\<close> is \<^verbatim>\<open>k in dict(attrs)\<close>, and
  \<open>attr_truthy\<close> is the value when \<^verbatim>\<open>dict(attrs).get(k)\<close> is truthy (a non-empty string).
\<close>

definition attr_get :: "attrs \<Rightarrow> string \<Rightarrow> string option" where
  "attr_get at k = (case map_of (rev at) k of None \<Rightarrow> None | Some v \<Rightarrow> v)"

definition attr_key :: "attrs \<Rightarrow> string \<Rightarrow> bool" where
  "attr_key at k = (map_of (rev at) k \<noteq> None)"

definition attr_truthy :: "attrs \<Rightarrow> string \<Rightarrow> string option" where
  "attr_truthy at k =
     (case attr_get at k of None \<Rightarrow> None | Some v \<Rightarrow> if v = [] then None else Some v)"

record 'f dm_parser =
  base_url :: string
  imgs :: "string list"
  stack_in_wrap :: "bool list"
  stack_in_picture :: "bool list"
  current_picture_srcsets :: "'f candidate list"

definition dm_init :: "string \<Rightarrow> 'f dm_parser" where
  "dm_init base =
     \<lparr> base_url = base, imgs = [], stack_in_wrap = [], stack_in_picture = [],
       current_picture_srcsets = [] \<rparr>"

text \<open>\<^verbatim>\<open>stack[-1] if stack else False\<close>; the stacks grow at the end, as Python lists do.\<close>

definition top_or_false :: "bool list \<Rightarrow> bool" where
  "top_or_false st = (if st = [] then False else last st)"

text \<open>
  The two loops of the \<^verbatim>\<open>img\<close> branch: \<^verbatim>\<open>srcset\<close> and \<^verbatim>\<open>data-srcset\<close> are parsed and
  appended, then each single-URL attribute present adds one candidate without hints.
\<close>

fun extend_srcsets ::
  "'f stdlib \<Rightarrow> attrs \<Rightarrow> 'f candidate list \<Rightarrow> string list \<Rightarrow> error + 'f candidate list" where
  "extend_srcsets L at cands [] = Inr cands"
| "extend_srcsets L at cands (k # ks) =
     (case attr_truthy at k of
        None \<Rightarrow> extend_srcsets L at cands ks
      | Some v \<Rightarrow>
          (case parse_srcset L v of
             Inl e \<Rightarrow> Inl e
           | Inr cs \<Rightarrow> extend_srcsets L at (cands @ cs) ks))"

fun append_fallbacks :: "attrs \<Rightarrow> 'f candidate list \<Rightarrow> string list \<Rightarrow> 'f candidate list" where
  "append_fallbacks at cands [] = cands"
| "append_fallbacks at cands (k # ks) =
     (case attr_truthy at k of
        None \<Rightarrow> append_fallbacks at cands ks
      | Some v \<Rightarrow> append_fallbacks at (cands @ [(v, None, None)]) ks)"

definition img_candidates :: "'f stdlib \<Rightarrow> 'f dm_parser \<Rightarrow> attrs \<Rightarrow> error + 'f candidate list" where
  "img_candidates L s at =
     (let c0 = (if stack_in_picture s \<noteq> [] \<and> current_picture_srcsets s \<noteq> []
                then current_picture_srcsets s else [])
      in case extend_srcsets L at c0 [''srcset'', ''data-srcset''] of
           Inl e \<Rightarrow> Inl e
         | Inr c1 \<Rightarrow>
             Inr (append_fallbacks at c1 [''data-src'', ''data-original'', ''data-image'', ''src'']))"

definition dm_handle_starttag ::
  "'f stdlib \<Rightarrow> 'f dm_parser \<Rightarrow> string \<Rightarrow> attrs \<Rightarrow> error + 'f dm_parser" where
  "dm_handle_starttag L s tag at =
     (let tl = lower tag
      in if tl = ''div''
         then (let cls = (case attr_get at ''class'' of None \<Rightarrow> [] | Some v \<Rightarrow> v);
                   classes = split_ws cls;
                   in_wrap = (''image-wrap'' \<in> set classes)
               in Inr (s\<lparr>stack_in_wrap :=
                          stack_in_wrap s @ [in_wrap \<or> top_or_false (stack_in_wrap s)]\<rparr>))
         else if tl = ''picture''
         then Inr (s\<lparr>stack_in_picture := stack_in_picture s @ [True],
                      current_picture_srcsets := []\<rparr>)
         else if tl = ''source'' \<and> top_or_false (stack_in_picture s)
         then (case (case attr_truthy at ''srcset'' of
                       Some v \<Rightarrow> Some v
                     | None \<Rightarrow> attr_truthy at ''data-srcset'') of
                 None \<Rightarrow> Inr s
               | Some ss \<Rightarrow>
                   (case parse_srcset L ss of
                      Inl e \<Rightarrow> Inl e
                    | Inr cs \<Rightarrow>
                        Inr (s\<lparr>current_picture_srcsets := current_picture_srcsets s @ cs\<rparr>)))
         else if tl = ''img''
         then (if \<not> top_or_false (stack_in_wrap s) then Inr s
               else (case img_candidates L s at of
                       Inl e \<Rightarrow> Inl e
                     | Inr candidates \<Rightarrow>
                         if candidates = [] then Inr s
                         else (case pick_largest L candidates (base_url s) of
                                 Inl e \<Rightarrow> Inl e
                               | Inr None \<Rightarrow> Inr s
                               | Inr (Some best) \<Rightarrow>
                                   if best = [] then Inr s
                                   else Inr (s\<lparr>imgs := imgs s @ [best]\<rparr>))))
         else Inr s)"

definition dm_handle_endtag :: "'f dm_parser \<Rightarrow> string \<Rightarrow> 'f dm_parser" where
  "dm_handle_endtag s tag =
     (let tl = lower tag
      in if tl = ''div''
         then (if stack_in_wrap s \<noteq> [] then s\<lparr>stack_in_wrap := butlast (stack_in_wrap s)\<rparr>
               else s)
         else if tl = ''picture''
         then (if stack_in_picture s \<noteq> []
               then s\<lparr>stack_in_picture := butlast (stack_in_picture s)\<rparr>
               else s)\<lparr>current_picture_srcsets := []\<rparr>
         else s)"

text \<open>The class does not override \<^verbatim>\<open>handle_data\<close>: text changes nothing.\<close>

fun dm_handle :: "'f stdlib \<Rightarrow> 'f dm_parser \<Rightarrow> event \<Rightarrow> error + 'f dm_parser" where
  "dm_handle L s (StartTag tag at) = dm_handle_starttag L s tag at"
| "dm_handle L s (EndTag tag) = Inr (dm_handle_endtag s tag)"
| "dm_handle L s (Data d) = Inr s"

fun dm_feed :: "'f stdlib \<Rightarrow> 'f dm_parser \<Rightarrow> event list \<Rightarrow> error + 'f dm_parser" where
  "dm_feed L s [] = Inr s"
| "dm_feed L s (e # es) =
     (case dm_handle L s e of Inl x \<Rightarrow> Inl x | Inr s' \<Rightarrow> dm_feed L s' es)"

text \<open>The loop of \<^verbatim>\<open>extract_image_urls\<close> that removes duplicates and keeps the order.\<close>

fun dedupe :: "string set \<Rightarrow> string list \<Rightarrow> string list \<Rightarrow> string list" where
  "dedupe seen out [] = out"
| "dedupe seen out (u # us) =
     (if u \<notin> seen then dedupe (insert u seen) (out @ [u]) us else dedupe seen out us)"

text \<open>
  \<^verbatim>\<open>extract_image_urls\<close>, from the handler calls that \<^verbatim>\<open>feed\<close> makes on the fetched text.
\<close>

definition extract_image_urls :: "'f stdlib \<Rightarrow> string \<Rightarrow> event list \<Rightarrow> error + string list" where
  "extract_image_urls L url events =
     (case dm_feed L (dm_init url) events of
        Inl e \<Rightarrow> Inl e
      | Inr s \<Rightarrow> Inr (dedupe {} [] (imgs s)))"

section \<open>Daily Mail: downloads and the report rows\<close>

text \<open>
  What the scripts print is kept as a list of log entries. Whether a download succeeds
  is decided outside the program; \<open>retrieve url target\<close> is \<open>True\<close> when
  \<^verbatim>\<open>urlretrieve\<close> (or, in the Guardian script, the request and the write) raises nothing.
\<close>

datatype log_entry = Saved string string | Failed string

text \<open>\<^verbatim>\<open>os.path.join\<close> of a directory and one more component.\<close>

definition path_join :: "string \<Rightarrow> string \<Rightarrow> string" where
  "path_join a b =
     (if startswith b ''/'' then b
      else if a = [] \<or> endswith a ''/'' then a @ b
      else a @ ''/'' @ b)"

text \<open>
  The loop of \<^verbatim>\<open>download_images_sequential\<close>; the state is \<^verbatim>\<open>saved\<close>, \<^verbatim>\<open>idx\<close> and the log.
  \<^verbatim>\<open>_ext_from_url\<close> is called outside the \<^verbatim>\<open>try\<close>, so its error leaves the loop.
\<close>

fun dm_download_loop ::
  "'f stdlib \<Rightarrow> (string \<Rightarrow> string \<Rightarrow> bool) \<Rightarrow> string \<Rightarrow> string list \<Rightarrow> int \<Rightarrow> log_entry list \<Rightarrow>
   string list \<Rightarrow> error + (string list \<times> int \<times> log_entry list)" where
  "dm_download_loop L retrieve outdir saved idx lg [] = Inr (saved, idx, lg)"
| "dm_download_loop L retrieve outdir saved idx lg (u # us) =
     (case ext_from_url L u of
        Inl e \<Rightarrow> Inl e
      | Inr ext \<Rightarrow>
          (let fname = ''dailymail_'' @ str_int idx @ ext;
               full = path_join outdir fname
           in if retrieve u full
              then dm_download_loop L retrieve outdir (saved @ [fname]) (idx + 1) lg us
              else dm_download_loop L retrieve outdir saved idx (lg @ [Failed u]) us))"

definition download_images_sequential ::
  "'f stdlib \<Rightarrow> (string \<Rightarrow> string \<Rightarrow> bool) \<Rightarrow> string list \<Rightarrow> string \<Rightarrow> int \<Rightarrow>
   error + (string list \<times> int \<times> log_entry list)" where
  "download_images_sequential L retrieve urls outdir start_index =
     dm_download_loop L retrieve outdir [] start_index [] urls"

text \<open>
  A row of the report: the page, the number of names, the names. \<open>pages u\<close> is the
  sequence of handler calls for the text fetched from \<open>u\<close>, or \<open>None\<close> when the fetch
  raises. The loop of \<^verbatim>\<open>main\<close> of the Daily Mail script catches every exception of
  \<^verbatim>\<open>extract_image_urls\<close> and goes on with no image. Reading the list of pages and
  writing the CSV file are left out: the result is the rows the file is written from and
  the counter.
\<close>

type_synonym row = "string \<times> nat \<times> string list"

fun dm_main_loop ::
  "'f stdlib \<Rightarrow> (string \<Rightarrow> event list option) \<Rightarrow> (string \<Rightarrow> string \<Rightarrow> bool) \<Rightarrow> string \<Rightarrow>
   row list \<Rightarrow> int \<Rightarrow> string list \<Rightarrow> error + (row list \<times> int)" where
  "dm_main_loop L pages retrieve outdir rows global_index [] = Inr (rows, global_index)"
| "dm_main_loop L pages retrieve outdir rows global_index (u # us) =
     (let img_urls =
            (case pages u of
               None \<Rightarrow> []
             | Some events \<Rightarrow>
                 (case extract_image_urls L u events of Inl e \<Rightarrow> [] | Inr found \<Rightarrow> found))
      in case download_images_sequential L retrieve img_urls outdir global_index of
           Inl e \<Rightarrow> Inl e
         | Inr (saved, idx, lg) \<Rightarrow>
             dm_main_loop L pages retrieve outdir (rows @ [(u, length saved, saved)]) idx us)"

definition dm_main ::
  "'f stdlib \<Rightarrow> (string \<Rightarrow> event list option) \<Rightarrow> (string \<Rightarrow> string \<Rightarrow> bool) \<Rightarrow> string \<Rightarrow>
   string list \<Rightarrow> error + (row list \<times> int)" where
  "dm_main L pages retrieve outdir urls = dm_main_loop L pages retrieve outdir [] 1 urls"

section \<open>Guardian: the parser\<close>

text \<open>
  The counters are Python integers. \<^verbatim>\<open>picture_best\<close> is \<^verbatim>\<open>None\<close> or the pair
  \<^verbatim>\<open>(url, size_hint)\<close>.
\<close>

record g_parser =
  base :: string
  images :: "string list"
  seen :: "string set"
  in_main :: int
  in_article :: int
  in_lightbox :: int
  in_figure :: int
  in_picture :: int
  in_noscript :: int
  picture_best :: "(string \<times> int) option"

definition g_init :: "string \<Rightarrow> g_parser" where
  "g_init b =
     \<lparr> base = b, images = [], seen = {}, in_main = 0, in_article = 0, in_lightbox = 0,
       in_figure = 0, in_picture = 0, in_noscript = 0, picture_best = None \<rparr>"

text \<open>\<^verbatim>\<open>_consider\<close>, here \<open>g_consider\<close>; its second argument is never read by the source and is left out.\<close>

definition g_consider :: "'f stdlib \<Rightarrow> g_parser \<Rightarrow> string \<Rightarrow> error + g_parser" where
  "g_consider L s url =
     (if url = [] then Inr s
      else (case urljoin L (base s) url of
              Inl e \<Rightarrow> Inl e
            | Inr joined \<Rightarrow>
                if \<not> (startswith joined ''http://'' \<or> startswith joined ''https://'') then Inr s
                else if \<not> keep_guardian_cdn L joined then Inr s
                else (case upgrade_guardian_url L joined 2000 of
                        Inl e \<Rightarrow> Inl e
                      | Inr final \<Rightarrow>
                          if final \<notin> seen s
                          then Inr (s\<lparr>seen := insert final (seen s),
                                       images := images s @ [final]\<rparr>)
                          else Inr s)))"

text \<open>
  \<^verbatim>\<open>_pick_from_attrs\<close>: the first loop over \<^verbatim>\<open>srcset\<close> and \<^verbatim>\<open>data-srcset\<close>, then the second
  over \<^verbatim>\<open>src\<close> and \<^verbatim>\<open>data-src\<close>; the result is the pair of the source.
\<close>

fun pick_single :: "attrs \<Rightarrow> string list \<Rightarrow> string option \<times> int" where
  "pick_single at [] = (None, - 1)"
| "pick_single at (k # ks) =
     (case attr_truthy at k of Some v \<Rightarrow> (Some v, 0) | None \<Rightarrow> pick_single at ks)"

fun pick_srcset ::
  "'f stdlib \<Rightarrow> string \<Rightarrow> attrs \<Rightarrow> string list \<Rightarrow> error + (string option \<times> int)" where
  "pick_srcset L b at [] = Inr (pick_single at [''src'', ''data-src''])"
| "pick_srcset L b at (k # ks) =
     (case attr_truthy at k of
        None \<Rightarrow> pick_srcset L b at ks
      | Some v \<Rightarrow>
          (case best_from_srcset L v b of
             Inl e \<Rightarrow> Inl e
           | Inr None \<Rightarrow> pick_srcset L b at ks
           | Inr (Some u) \<Rightarrow> if u = [] then pick_srcset L b at ks else Inr (Some u, 1)))"

definition pick_from_attrs ::
  "'f stdlib \<Rightarrow> g_parser \<Rightarrow> attrs \<Rightarrow> error + (string option \<times> int)" where
  "pick_from_attrs L s at = pick_srcset L (base s) at [''srcset'', ''data-srcset'']"

definition commit_picture_best :: "'f stdlib \<Rightarrow> g_parser \<Rightarrow> error + g_parser" where
  "commit_picture_best L s =
     (case picture_best s of
        None \<Rightarrow> Inr s
      | Some (u, hint) \<Rightarrow>
          (case g_consider L s u of
             Inl e \<Rightarrow> Inl e
           | Inr s' \<Rightarrow> Inr (s'\<lparr>picture_best := None\<rparr>)))"

text \<open>
  \<^verbatim>\<open>handle_starttag\<close> runs four parts in a row. \<open>region_open\<close> is the first: the
  \<^verbatim>\<open>if/elif\<close> chain on \<^verbatim>\<open>main\<close>, \<^verbatim>\<open>article\<close> and the lightbox \<^verbatim>\<open>div\<close>, then the three
  \<^verbatim>\<open>if\<close>s on \<^verbatim>\<open>figure\<close>, \<^verbatim>\<open>picture\<close> and \<^verbatim>\<open>noscript\<close>, each reading the counters as
  the one before left them.
\<close>

definition region_open :: "g_parser \<Rightarrow> string \<Rightarrow> attrs \<Rightarrow> g_parser" where
  "region_open s tag at =
     (let s1 = (if tag = ''main'' then s\<lparr>in_main := in_main s + 1\<rparr>
                else if tag = ''article'' \<and> in_main s \<noteq> 0
                then s\<lparr>in_article := in_article s + 1\<rparr>
                else if tag = ''div'' \<and>
                        (attr_get at ''id'' = Some ''gu-lightbox'' \<or>
                         attr_get at ''role'' = Some ''dialog'')
                then s\<lparr>in_lightbox := in_lightbox s + 1\<rparr>
                else s);
          s2 = (if tag = ''figure'' \<and> (in_article s1 \<noteq> 0 \<or> in_lightbox s1 \<noteq> 0)
                then s1\<lparr>in_figure := in_figure s1 + 1\<rparr> else s1);
          s3 = (if tag = ''picture'' \<and> (in_figure s2 \<noteq> 0 \<or> in_lightbox s2 \<noteq> 0)
                then s2\<lparr>in_picture := in_picture s2 + 1, picture_best := None\<rparr> else s2)
      in if tag = ''noscript'' \<and> (in_figure s3 \<noteq> 0 \<or> in_lightbox s3 \<noteq> 0)
         then s3\<lparr>in_noscript := in_noscript s3 + 1\<rparr> else s3)"

text \<open>
  The update of \<^verbatim>\<open>picture_best\<close> inside a \<^verbatim>\<open>picture\<close>: the hint is 2 when the tag has
  a \<^verbatim>\<open>srcset\<close> or \<^verbatim>\<open>data-srcset\<close> key, else 1, and only a greater hint replaces.
\<close>

definition picture_update :: "g_parser \<Rightarrow> attrs \<Rightarrow> string \<Rightarrow> g_parser" where
  "picture_update s at u =
     (let size_hint = (if attr_key at ''srcset'' \<or> attr_key at ''data-srcset'' then 2 else 1)
      in case picture_best s of
           None \<Rightarrow> s\<lparr>picture_best := Some (u, size_hint)\<rparr>
         | Some (bu, bh) \<Rightarrow>
             if size_hint > bh then s\<lparr>picture_best := Some (u, size_hint)\<rparr> else s)"

text \<open>
  The pattern of the inline style,
  \<^verbatim>\<open>url\((["']?)(https?://i\.guim\.co\.uk/[^)]+)\1\)\<close>. After \<^verbatim>\<open>url(\<close> an opening quote is
  taken when there is one (without it the text would have to start with \<^verbatim>\<open>http\<close>). The
  run of characters other than \<^verbatim>\<open>)\<close> behind the host prefix must be followed by \<^verbatim>\<open>)\<close>;
  with a quote, the run must end with the same quote, which is not part of group 2.
  \<open>style_match_at\<close> is the match anchored at the head and returns group 2;
  \<open>style_search\<close> is \<^verbatim>\<open>re.search\<close>.
\<close>

definition guim_prefix :: "string \<Rightarrow> string option" where
  "guim_prefix t =
     (if startswith t ''https://i.guim.co.uk/'' then Some ''https://i.guim.co.uk/''
      else if startswith t ''http://i.guim.co.uk/'' then Some ''http://i.guim.co.uk/''
      else None)"

definition style_match_at :: "string \<Rightarrow> string option" where
  "style_match_at s =
     (if startswith s ''url(''
      then (let r = drop 4 s;
                q = (if r \<noteq> [] \<and> (hd r = CHR 0x22 \<or> hd r = CHR 0x27) then [hd r] else []);
                t0 = drop (length q) r
            in case guim_prefix t0 of
                 None \<Rightarrow> None
               | Some pfx \<Rightarrow>
                   (let t = drop (length pfx) t0;
                        run = takeWhile (\<lambda>c. c \<noteq> CHR '')'') t;
                        after = dropWhile (\<lambda>c. c \<noteq> CHR '')'') t
                    in if after = [] then None
                       else if q = [] then (if run \<noteq> [] then Some (pfx @ run) else None)
                       else if 2 \<le> length run \<and> [last run] = q then Some (pfx @ butlast run)
                       else None))
      else None)"

fun style_search :: "string \<Rightarrow> string option" where
  "style_search [] = None"
| "style_search (c # cs) =
     (case style_match_at (c # cs) of Some u \<Rightarrow> Some u | None \<Rightarrow> style_search cs)"

text \<open>
  The last part of \<^verbatim>\<open>handle_starttag\<close>. \<^verbatim>\<open>"style" in attrs\<close> holds for a \<^verbatim>\<open>style\<close>
  attribute without a value too; \<^verbatim>\<open>re.search\<close> then receives \<^verbatim>\<open>None\<close> and raises
  \<^verbatim>\<open>TypeError\<close>.
\<close>

definition style_step :: "'f stdlib \<Rightarrow> g_parser \<Rightarrow> attrs \<Rightarrow> error + g_parser" where
  "style_step L s at =
     (if (in_figure s \<noteq> 0 \<or> in_lightbox s \<noteq> 0) \<and> attr_key at ''style''
      then (case attr_get at ''style'' of
              None \<Rightarrow> Inl TypeError
            | Some st \<Rightarrow>
                (case style_search st of None \<Rightarrow> Inr s | Some u \<Rightarrow> g_consider L s u))
      else Inr s)"

text \<open>
  \<^verbatim>\<open>handle_starttag\<close>. In the \<^verbatim>\<open>img\<close>/\<^verbatim>\<open>source\<close> part, \<^verbatim>\<open>if not u: return\<close> leaves the
  handler, so the style part is not reached then.
\<close>

definition g_handle_starttag ::
  "'f stdlib \<Rightarrow> g_parser \<Rightarrow> string \<Rightarrow> attrs \<Rightarrow> error + g_parser" where
  "g_handle_starttag L s0 tag at =
     (let s = region_open s0 tag at
      in if (in_figure s \<noteq> 0 \<or> in_lightbox s \<noteq> 0) \<and> (tag = ''img'' \<or> tag = ''source'')
         then (case pick_from_attrs L s at of
                 Inl e \<Rightarrow> Inl e
               | Inr (None, sz) \<Rightarrow> Inr s
               | Inr (Some u, sz) \<Rightarrow>
                   if u = [] then Inr s
                   else (case (if in_picture s \<noteq> 0 then Inr (picture_update s at u)
                               else g_consider L s u) of
                           Inl e \<Rightarrow> Inl e
                         | Inr s' \<Rightarrow> style_step L s' at))
         else style_step L s at)"

text \<open>\<^verbatim>\<open>handle_endtag\<close>: six \<^verbatim>\<open>if\<close>s in a row.\<close>

definition region_close :: "g_parser \<Rightarrow> string \<Rightarrow> g_parser" where
  "region_close s tag =
     (let s2 = (if tag = ''noscript'' \<and> in_noscript s \<noteq> 0
                then s\<lparr>in_noscript := in_noscript s - 1\<rparr> else s);
          s3 = (if tag = ''figure'' \<and> in_figure s2 \<noteq> 0
                then s2\<lparr>in_figure := in_figure s2 - 1\<rparr> else s2);
          s4 = (if tag = ''article'' \<and> in_article s3 \<noteq> 0
                then s3\<lparr>in_article := in_article s3 - 1\<rparr> else s3);
          s5 = (if tag = ''main'' \<and> in_main s4 \<noteq> 0
                then s4\<lparr>in_main := in_main s4 - 1\<rparr> else s4)
      in if tag = ''div'' \<and> in_lightbox s5 \<noteq> 0
         then s5\<lparr>in_lightbox := in_lightbox s5 - 1\<rparr> else s5)"

definition g_handle_endtag :: "'f stdlib \<Rightarrow> g_parser \<Rightarrow> string \<Rightarrow> error + g_parser" where
  "g_handle_endtag L s tag =
     (if tag = ''picture'' \<and> in_picture s \<noteq> 0
      then (case commit_picture_best L s of
              Inl e \<Rightarrow> Inl e
            | Inr s1 \<Rightarrow> Inr (region_close (s1\<lparr>in_picture := in_picture s1 - 1\<rparr>) tag))
      else Inr (region_close s tag))"

fun g_consider_all :: "'f stdlib \<Rightarrow> g_parser \<Rightarrow> string list \<Rightarrow> error + g_parser" where
  "g_consider_all L s [] = Inr s"
| "g_consider_all L s (u # us) =
     (case g_consider L s u of Inl e \<Rightarrow> Inl e | Inr s' \<Rightarrow> g_consider_all L s' us)"

text \<open>
  The pattern of \<^verbatim>\<open>handle_data\<close>, \<^verbatim>\<open><img[^>]+src=["\']([^"\']+)["\']\<close> with \<^verbatim>\<open>re.I\<close>.
  \<open>src_tail\<close> is the part from \<^verbatim>\<open>src=\<close> on, anchored at the head: group 1 and the length
  of the match; the two quotes need not be the same. Behind \<^verbatim>\<open><img\<close> the greedy
  \<^verbatim>\<open>[^>]+\<close> takes the longest stretch without \<^verbatim>\<open>>\<close> after which \<open>src_tail\<close> matches.
  \<open>img_finditer\<close> is \<^verbatim>\<open>re.finditer\<close>: it goes on behind each match; \<open>skip\<close> counts the
  characters of the last match still to pass.
\<close>

definition is_quote :: "char \<Rightarrow> bool" where
  "is_quote c = (c = CHR 0x22 \<or> c = CHR 0x27)"

definition src_tail :: "string \<Rightarrow> (string \<times> nat) option" where
  "src_tail t =
     (if lower (take 4 t) = ''src=''
      then (case drop 4 t of
              [] \<Rightarrow> None
            | q # r \<Rightarrow>
                if is_quote q
                then (let v = takeWhile (\<lambda>c. \<not> is_quote c) r
                      in if v \<noteq> [] \<and> length v < length r then Some (v, length v + 6)
                         else None)
                else None)
      else None)"

definition img_match_at :: "string \<Rightarrow> (string \<times> nat) option" where
  "img_match_at s =
     (if lower (take 4 s) = ''<img''
      then (let t = drop 4 s; n = length (takeWhile (\<lambda>c. c \<noteq> CHR ''>'') t)
            in case find (\<lambda>k. src_tail (drop k t) \<noteq> None) (rev [1..<Suc n]) of
                 None \<Rightarrow> None
               | Some k \<Rightarrow>
                   (case src_tail (drop k t) of
                      None \<Rightarrow> None
                    | Some (v, len) \<Rightarrow> Some (v, 4 + k + len)))
      else None)"

fun img_finditer :: "nat \<Rightarrow> string \<Rightarrow> string list" where
  "img_finditer skip [] = []"
| "img_finditer skip (c # cs) =
     (if 0 < skip then img_finditer (skip - 1) cs
      else (case img_match_at (c # cs) of
              Some (v, len) \<Rightarrow> v # img_finditer (len - 1) cs
            | None \<Rightarrow> img_finditer 0 cs))"

definition g_handle_data :: "'f stdlib \<Rightarrow> g_parser \<Rightarrow> string \<Rightarrow> error + g_parser" where
  "g_handle_data L s d =
     (if (in_figure s \<noteq> 0 \<or> in_lightbox s \<noteq> 0) \<and> in_noscript s \<noteq> 0 \<and> strip d \<noteq> []
      then g_consider_all L s (img_finditer 0 (unescape L d))
      else Inr s)"

fun g_handle :: "'f stdlib \<Rightarrow> g_parser \<Rightarrow> event \<Rightarrow> error + g_parser" where
  "g_handle L s (StartTag tag at) = g_handle_starttag L s tag at"
| "g_handle L s (EndTag tag) = g_handle_endtag L s tag"
| "g_handle L s (Data d) = g_handle_data L s d"

fun g_feed :: "'f stdlib \<Rightarrow> g_parser \<Rightarrow> event list \<Rightarrow> error + g_parser" where
  "g_feed L s [] = Inr s"
| "g_feed L s (e # es) =
     (case g_handle L s e of Inl x \<Rightarrow> Inl x | Inr s' \<Rightarrow> g_feed L s' es)"

definition extract_guardian_images ::
  "'f stdlib \<Rightarrow> string \<Rightarrow> event list \<Rightarrow> error + string list" where
  "extract_guardian_images L page_url events =
     (case g_feed L (g_init page_url) events of
        Inl e \<Rightarrow> Inl e
      | Inr s \<Rightarrow> Inr (images s))"

section \<open>Guardian: downloads and the report rows\<close>

text \<open>
  \<^verbatim>\<open>save_image\<close> returns the name after the \<^verbatim>\<open>try\<close>, whatever happened inside;
  \<^verbatim>\<open>safe_ext\<close> is evaluated before the \<^verbatim>\<open>try\<close>. The result is the name and the line
  printed.
\<close>

definition save_image ::
  "'f stdlib \<Rightarrow> (string \<Rightarrow> string \<Rightarrow> bool) \<Rightarrow> string \<Rightarrow> string \<Rightarrow> int \<Rightarrow>
   error + (string \<times> log_entry)" where
  "save_image L retrieve outdir url idx =
     (case safe_ext L url of
        Inl e \<Rightarrow> Inl e
      | Inr ext \<Rightarrow>
          (let name = ''guardian_'' @ str_int idx @ ext;
               target = path_join outdir name
           in Inr (name, if retrieve url target then Saved name url else Failed url)))"

text \<open>The inner loop of \<^verbatim>\<open>main\<close>: the counter goes up before each \<^verbatim>\<open>save_image\<close>.\<close>

fun g_save_loop ::
  "'f stdlib \<Rightarrow> (string \<Rightarrow> string \<Rightarrow> bool) \<Rightarrow> string \<Rightarrow> string list \<Rightarrow> int \<Rightarrow> log_entry list \<Rightarrow>
   string list \<Rightarrow> error + (string list \<times> int \<times> log_entry list)" where
  "g_save_loop L retrieve outdir names global_idx lg [] = Inr (names, global_idx, lg)"
| "g_save_loop L retrieve outdir names global_idx lg (img_u # us) =
     (case save_image L retrieve outdir img_u (global_idx + 1) of
        Inl e \<Rightarrow> Inl e
      | Inr (name, line) \<Rightarrow>
          g_save_loop L retrieve outdir (names @ [name]) (global_idx + 1) (lg @ [line]) us)"

text \<open>
  The outer loop of \<^verbatim>\<open>main\<close>: a page whose fetch raises gets the row \<^verbatim>\<open>[u, 0]\<close>; the
  extraction is outside any \<^verbatim>\<open>try\<close>.
\<close>

fun g_main_loop ::
  "'f stdlib \<Rightarrow> (string \<Rightarrow> event list option) \<Rightarrow> (string \<Rightarrow> string \<Rightarrow> bool) \<Rightarrow> string \<Rightarrow>
   row list \<Rightarrow> int \<Rightarrow> string list \<Rightarrow> error + (row list \<times> int)" where
  "g_main_loop L pages retrieve outdir rows global_idx [] = Inr (rows, global_idx)"
| "g_main_loop L pages retrieve outdir rows global_idx (u # us) =
     (case pages u of
        None \<Rightarrow> g_main_loop L pages retrieve outdir (rows @ [(u, 0, [])]) global_idx us
      | Some events \<Rightarrow>
          (case extract_guardian_images L u events of
             Inl e \<Rightarrow> Inl e
           | Inr img_urls \<Rightarrow>
               (case g_save_loop L retrieve outdir [] global_idx [] img_urls of
                  Inl e \<Rightarrow> Inl e
                | Inr (names, idx, lg) \<Rightarrow>
                    g_main_loop L pages retrieve outdir
                      (rows @ [(u, length names, names)]) idx us)))"

definition g_main ::
  "'f stdlib \<Rightarrow> (string \<Rightarrow> event list option) \<Rightarrow> (string \<Rightarrow> string \<Rightarrow> bool) \<Rightarrow> string \<Rightarrow>
   string list \<Rightarrow> error + (row list \<times> int)" where
  "g_main L pages retrieve outdir urls = g_main_loop L pages retrieve outdir [] 0 urls"

section \<open>The specification's candidate parser\<close>

text \<open>
  The parser as the specification words it: the descriptor is cut at the commas, empty
  tokens are dropped, each token is cut at whitespace into a URL and an optional suffix,
  and the suffix gives the hint. It is stated apart from \<open>parse_srcset\<close> and compared
  with it below.
\<close>

definition tokens :: "string \<Rightarrow> string list" where
  "tokens srcset = filter (\<lambda>t. t \<noteq> []) (map strip (split_on (CHR '','') [] srcset))"

definition spec_candidate :: "'f stdlib \<Rightarrow> string \<Rightarrow> 'f candidate" where
  "spec_candidate L token =
     (case split_ws token of
        [] \<Rightarrow> (token, None, None)
      | [url] \<Rightarrow> (url, None, None)
      | url # suffix # _ \<Rightarrow>
          (if endswith (lower suffix) ''w''
           then (url, py_int (int_max_str_digits L) (butlast (lower suffix)), None)
           else if endswith (lower suffix) ''x''
           then (url, None, float_of_str L (butlast (lower suffix)))
           else (url, None, None)))"

definition spec_parse :: "'f stdlib \<Rightarrow> string \<Rightarrow> 'f candidate list" where
  "spec_parse L srcset = map (spec_candidate L) (tokens srcset)"

section \<open>A small library instance for the examples\<close>

text \<open>
  The examples need values for the library parameters. These stand-ins agree with
  \<^verbatim>\<open>urllib.parse\<close> on the URLs the examples use: absolute URLs of the shape
  \<^verbatim>\<open>scheme://host/path?query\<close>, and relative references that are a bare file name. A
  float is a decimal numeral \<^verbatim>\<open>digits[.digits]\<close>, kept as its digits and the number of
  digits behind the point. The text of the examples has no character references, so
  unescaping leaves it as it is.
\<close>

definition ex_urlparse :: "string \<Rightarrow> error + url_parts" where
  "ex_urlparse u =
     (let sch = takeWhile (\<lambda>c. c \<noteq> CHR '':'') u;
          r = drop (length sch + 3) u;
          host = takeWhile (\<lambda>c. c \<noteq> CHR ''/'') r;
          r2 = dropWhile (\<lambda>c. c \<noteq> CHR ''/'') r;
          nofrag = takeWhile (\<lambda>c. c \<noteq> CHR ''#'') r2
      in Inr \<lparr> scheme = sch, netloc = host,
               path = takeWhile (\<lambda>c. c \<noteq> CHR ''?'') nofrag, params = [],
               query = drop 1 (dropWhile (\<lambda>c. c \<noteq> CHR ''?'') nofrag),
               fragment = drop 1 (dropWhile (\<lambda>c. c \<noteq> CHR ''#'') r2) \<rparr>)"

definition ex_urljoin :: "string \<Rightarrow> string \<Rightarrow> error + string" where
  "ex_urljoin b u =
     Inr (if contains ''://'' u then u
          else rev (dropWhile (\<lambda>c. c \<noteq> CHR ''/'') (rev b)) @ u)"

definition ex_urlunparse :: "url_parts \<Rightarrow> string" where
  "ex_urlunparse p =
     scheme p @ ''://'' @ netloc p @ path p @
     (if query p = [] then [] else CHR ''?'' # query p) @
     (if fragment p = [] then [] else CHR ''#'' # fragment p)"

definition ex_parse_qs :: "string \<Rightarrow> (string \<times> string list) list" where
  "ex_parse_qs q =
     map (\<lambda>kv. (takeWhile (\<lambda>c. c \<noteq> CHR ''='') kv,
                 [drop 1 (dropWhile (\<lambda>c. c \<noteq> CHR ''='') kv)]))
       (filter (\<lambda>kv. kv \<noteq> []) (split_on (CHR ''&'') [] q))"

fun ex_urlencode :: "(string \<times> string) list \<Rightarrow> string" where
  "ex_urlencode [] = []"
| "ex_urlencode [(k, v)] = k @ ''='' @ v"
| "ex_urlencode ((k, v) # kvs) = k @ ''='' @ v @ ''&'' @ ex_urlencode kvs"

definition ex_float_of_str :: "string \<Rightarrow> (int \<times> nat) option" where
  "ex_float_of_str s =
     (let ip = takeWhile isdigit s; r = dropWhile isdigit s
      in if ip = [] then None
         else if r = [] then Some (int (digits_val ip), 0)
         else if hd r = CHR ''.'' \<and> tl r \<noteq> [] \<and> list_all isdigit (tl r)
         then Some (int (digits_val (ip @ tl r)), length (tl r))
         else None)"

definition ex_float_gt :: "int \<times> nat \<Rightarrow> int \<times> nat \<Rightarrow> bool" where
  "ex_float_gt a b = (fst b * 10 ^ snd a < fst a * 10 ^ snd b)"

definition ex_lib :: "(int \<times> nat) stdlib" where
  "ex_lib =
     \<lparr> urljoin = ex_urljoin, urlparse = ex_urlparse, urlunparse = ex_urlunparse,
       parse_qs = ex_parse_qs, urlencode = ex_urlencode, float_of_str = ex_float_of_str,
       float_gt = ex_float_gt, unescape = (\<lambda>d. d), int_max_str_digits = 4300 \<rparr>"

section \<open>The specification's candidate selector\<close>


text \<open>
  The score as the specification words it: a \<^verbatim>\<open>WIDTHxHEIGHT\<close> pattern in the file name,
  three to five digits on each side of \<^verbatim>\<open>x\<close> or \<^verbatim>\<open>X\<close>, not adjacent to other digits, gives
  width times height; a URL without one scores its length. \<open>size_pattern_ok t a b\<close> says
  that \<open>t\<close> starts with \<open>a\<close> digits, \<^verbatim>\<open>x\<close> or \<^verbatim>\<open>X\<close>, and \<open>b\<close> digits after which no digit
  follows; \<open>spec_patterns\<close> lists the patterns of a text from left to right, each at a
  position before which no digit stands, and the first of them is the one scored. The
  file name is what follows the last slash, \<open>dir_part\<close> is what stands before it.
\<close>

definition size_pattern_ok :: "string \<Rightarrow> nat \<Rightarrow> nat \<Rightarrow> bool" where
  "size_pattern_ok t a b =
     (a + 1 + b \<le> length t \<and>
      list_all isdigit (take a t) \<and>
      (t ! a = CHR ''x'' \<or> t ! a = CHR ''X'') \<and>
      list_all isdigit (take b (drop (a + 1) t)) \<and>
      (length t = a + 1 + b \<or> \<not> isdigit (t ! (a + 1 + b))))"

definition pattern_at :: "string \<Rightarrow> (string \<times> string) list" where
  "pattern_at t =
     [(take a t, take b (drop (a + 1) t)).
        a \<leftarrow> [3, 4, 5], b \<leftarrow> [3, 4, 5], size_pattern_ok t a b]"

definition spec_patterns :: "string \<Rightarrow> (string \<times> string) list" where
  "spec_patterns s =
     [m. i \<leftarrow> [0..<length s], i = 0 \<or> \<not> isdigit (s ! (i - 1)), m \<leftarrow> pattern_at (drop i s)]"

definition dir_part :: "string \<Rightarrow> string" where
  "dir_part u = rev (dropWhile (\<lambda>c. c \<noteq> CHR ''/'') (rev u))"

definition spec_score :: "string \<Rightarrow> int" where
  "spec_score u =
     (case spec_patterns (basename u) of
        [] \<Rightarrow> int (length u)
      | (w, h) # _ \<Rightarrow> int (digits_val w) * int (digits_val h))"



definition ex_base :: string where
  "ex_base = ''https://www.dailymail.co.uk/news/article-1/index.html''"

section \<open>Signed URLs\<close>

text \<open>
  A query string carries the signature marker when one of its \<^verbatim>\<open>&\<close>-separated parameters
  is named \<^verbatim>\<open>s\<close>, in either case: the \<^verbatim>\<open>&s=...\<close> of the docstring of
  \<^verbatim>\<open>upgrade_guardian_url\<close>.
\<close>

definition signed_query :: "string \<Rightarrow> bool" where
  "signed_query q = list_ex (\<lambda>p. startswith (lower p) ''s='') (split_on (CHR ''&'') [] q)"

definition ex_signed :: string where
  "ex_signed = ''https://i.guim.co.uk/img/media/a/master/3000.jpg?width=300&quality=85&s=0f3a9c''"

definition ex_unsigned :: string where
  "ex_unsigned = ''https://i.guim.co.uk/img/media/a/master/3000.jpg?width=300''"

section \<open>Example pages and downloads\<close>

definition ex_urls :: "string list" where
  "ex_urls = [''https://i.guim.co.uk/img/a.jpg?s=1'', ''https://i.guim.co.uk/img/b.png?s=2'',
     ''https://i.guim.co.uk/img/c.webp?s=3'']"

text \<open>The second URL cannot be fetched.\<close>

definition ex_retrieve :: "string \<Rightarrow> string \<Rightarrow> bool" where
  "ex_retrieve u target = (u \<noteq> ''https://i.guim.co.uk/img/b.png?s=2'')"

definition ex_page :: string where
  "ex_page = ''https://www.theguardian.com/world/2024/jan/01/story''"

definition ex_lightbox_page :: "event list" where
  "ex_lightbox_page =
     [StartTag ''div'' [(''id'', Some ''gu-lightbox'')],
      StartTag ''img'' [(''src'', Some ''https://i.guim.co.uk/img/a.jpg?s=1'')],
      EndTag ''div'']"

definition ex_nested_lightbox :: "event list" where
  "ex_nested_lightbox =
     [StartTag ''div'' [(''id'', Some ''gu-lightbox'')],
      StartTag ''div'' [(''class'', Some ''caption'')],
      EndTag ''div'',
      StartTag ''img'' [(''src'', Some ''https://i.guim.co.uk/img/b.jpg?s=2'')],
      EndTag ''div'']"

definition ex_style :: string where
  "ex_style = ''background-image:url(https://i.guim.co.uk/img/x.jpg?s=9)''"

definition ex_figure_open :: "event list" where
  "ex_figure_open = [StartTag ''main'' [], StartTag ''article'' [], StartTag ''figure'' []]"

section \<open>The invariant of the Guardian counters\<close>

definition g_counters_ok :: "g_parser \<Rightarrow> bool" where
  "g_counters_ok s =
     (0 \<le> in_main s \<and> 0 \<le> in_article s \<and> 0 \<le> in_lightbox s \<and> 0 \<le> in_figure s \<and>
      0 \<le> in_picture s \<and> 0 \<le> in_noscript s)"

section \<open>The picture fragment of the specification\<close>

text \<open>
  The handler calls for
  \<^verbatim>\<open><picture><source srcset="a.jpg 400w"><source srcset="b.jpg 900w"><img src="c.jpg"></picture>\<close>,
  a Daily Mail parser that stands inside an \<^verbatim>\<open>image-wrap\<close> division, a Guardian parser
  that stands inside a figure of the article, and the same fragment with absolute
  addresses on the Guardian image host.
\<close>

definition picture_fragment :: "event list" where
  "picture_fragment =
     [StartTag ''picture'' [],
      StartTag ''source'' [(''srcset'', Some ''a.jpg 400w'')],
      StartTag ''source'' [(''srcset'', Some ''b.jpg 900w'')],
      StartTag ''img'' [(''src'', Some ''c.jpg'')],
      EndTag ''picture'']"

definition ex_dm_in_wrap :: "(int \<times> nat) dm_parser" where
  "ex_dm_in_wrap = (dm_init ex_base)\<lparr>stack_in_wrap := [True]\<rparr>"

definition ex_g_in_figure :: g_parser where
  "ex_g_in_figure =
     (g_init ''https://i.guim.co.uk/img/media/index.html'')
       \<lparr>in_main := 1, in_article := 1, in_figure := 1\<rparr>"

definition ex_cdn_picture :: "event list" where
  "ex_cdn_picture =
     [StartTag ''picture'' [],
      StartTag ''source'' [(''srcset'', Some ''https://i.guim.co.uk/img/a.jpg?s=1 400w'')],
      StartTag ''source'' [(''srcset'', Some ''https://i.guim.co.uk/img/b.jpg?s=2 900w'')],
      StartTag ''img'' [(''src'', Some ''https://i.guim.co.uk/img/c.jpg?s=3'')],
      EndTag ''picture'']"

section \<open>Regions of the document\<close>



fun inherited :: "bool \<Rightarrow> bool list \<Rightarrow> bool list" where
  "inherited acc [] = []"
| "inherited acc (d # ds) = (acc \<or> d) # inherited (acc \<or> d) ds"



definition ex_g_in_page_figure :: g_parser where
  "ex_g_in_page_figure = (g_init ex_page)\<lparr>in_main := 1, in_article := 1, in_figure := 1\<rparr>"

section \<open>The specification's file extension\<close>

text \<open>
  The rule of the specification: the extension is the first known one that the last
  component of the path ends with, after a dot and in any case, passed through \<open>norm\<close>;
  without one it is \<^verbatim>\<open>.jpg\<close>. The Daily Mail script knows four extensions and maps
  \<^verbatim>\<open>jpeg\<close> to \<^verbatim>\<open>jpg\<close>; the Guardian script knows five and keeps them.
  \<open>last_suffix\<close> is the text behind the last dot.
\<close>

definition spec_ext :: "string list \<Rightarrow> (string \<Rightarrow> string) \<Rightarrow> string \<Rightarrow> string" where
  "spec_ext known norm name =
     (case find (\<lambda>e. endswith (lower name) (CHR ''.'' # e)) known of
        Some e \<Rightarrow> CHR ''.'' # norm e
      | None \<Rightarrow> ''.jpg'')"

definition dm_known :: "string list" where
  "dm_known = [''jpg'', ''jpeg'', ''png'', ''webp'']"

definition dm_norm :: "string \<Rightarrow> string" where
  "dm_norm e = (if e = ''jpeg'' then ''jpg'' else e)"

definition g_known :: "string list" where
  "g_known = [''jpg'', ''jpeg'', ''png'', ''webp'', ''gif'']"

definition last_suffix :: "string \<Rightarrow> string" where
  "last_suffix x = rev (takeWhile (\<lambda>c. c \<noteq> CHR ''.'') (rev x))"

definition ex_photo :: string where
  "ex_photo = ''https://i.dailymail.co.uk/1s/2024/01/01/12/photo-a-12.JPEG''"

section \<open>Properties of the string helpers\<close>

lemma split_ws_from_nonempty:
  "cur \<noteq> [] \<or> (\<exists>c \<in> set s. \<not> isspace c) \<Longrightarrow> split_ws_from cur s \<noteq> []"
  by (induction s arbitrary: cur) auto

text \<open>A stripped text that is not empty has a first word, so \<^verbatim>\<open>bits[0]\<close> exists.\<close>

lemma strip_has_word: "strip p \<noteq> [] \<Longrightarrow> split_ws (strip p) \<noteq> []"
proof -
  assume ne: "strip p \<noteq> []"
  let ?r = "dropWhile isspace (rev (dropWhile isspace p))"
  from ne have r: "?r \<noteq> []" by (simp add: strip_def)
  then have "\<not> isspace (hd ?r)" by (rule hd_dropWhile)
  moreover from r have "hd ?r \<in> set (strip p)" by (simp add: strip_def)
  ultimately show ?thesis unfolding split_ws_def
    by (intro split_ws_from_nonempty) blast
qed

lemma split_on_chars: "t \<in> set (split_on sep cur s) \<Longrightarrow> set t \<subseteq> set cur \<union> set s"
proof (induction s arbitrary: cur)
  case Nil
  then show ?case by simp
next
  case (Cons c cs)
  show ?case
  proof (cases "c = sep")
    case True
    with Cons.prems have "t = cur \<or> t \<in> set (split_on sep [] cs)" by simp
    then show ?thesis using Cons.IH [of "[]"] by auto
  next
    case False
    with Cons.prems have "t \<in> set (split_on sep (cur @ [c]) cs)" by simp
    then show ?thesis using Cons.IH [of "cur @ [c]"] by auto
  qed
qed

lemma strip_all_space:
  assumes "list_all isspace t"
  shows "strip t = []"
proof -
  from assms have d: "dropWhile isspace t = []" by (simp add: list_all_iff)
  show ?thesis unfolding strip_def d by simp
qed

lemma tokens_all_space:
  assumes "list_all isspace s"
  shows "tokens s = []"
proof -
  have "strip t = []" if "t \<in> set (split_on (CHR '','') [] s)" for t
  proof -
    from that have "set t \<subseteq> set s" using split_on_chars [of t "CHR '',''" "[]" s] by simp
    with assms have "list_all isspace t" by (auto simp: list_all_iff)
    then show ?thesis by (rule strip_all_space)
  qed
  then show ?thesis by (auto simp: tokens_def filter_empty_conv)
qed

section \<open>The candidate parser\<close>

lemma parse_srcset_part_spec:
  "parse_srcset_part L out part =
     Inr (out @ (if strip part = [] then [] else [spec_candidate L (strip part)]))"
proof (cases "strip part = []")
  case True
  then show ?thesis by (simp add: parse_srcset_part_def)
next
  case False
  then obtain url others where w: "split_ws (strip part) = url # others"
    using strip_has_word by (cases "split_ws (strip part)") auto
  show ?thesis
    using False w
    by (cases others) (simp_all add: parse_srcset_part_def spec_candidate_def Let_def)
qed

lemma parse_srcset_loop_spec:
  "parse_srcset_loop L out ps =
     Inr (out @ map (spec_candidate L) (filter (\<lambda>t. t \<noteq> []) (map strip ps)))"
  by (induction ps arbitrary: out) (simp_all add: parse_srcset_part_spec)

lemma parse_srcset_spec: "parse_srcset L s = Inr (spec_parse L s)"
  by (simp add: parse_srcset_def parse_srcset_loop_spec spec_parse_def tokens_def strip_def)

lemma best_from_srcset_all_space:
  assumes "list_all isspace s"
  shows "best_from_srcset L s b = Inr None"
proof -
  have e: "strip s = []" using assms by (rule strip_all_space)
  have "strip [] = []" by (simp add: strip_def)
  then show ?thesis
    unfolding best_from_srcset_def e
    by (simp add: srcset_split_def candidate_match_def split_ws_def)
qed

text \<open>
  A size that \<^verbatim>\<open>int\<close> refuses for its length is caught in \<^verbatim>\<open>_parse_srcset\<close>, which goes on
  without a width, and is not caught in \<^verbatim>\<open>best_from_srcset\<close>.
\<close>

lemma best_loop_digit_limit:
  assumes "candidate_match part = Some (u, ds)" "py_int (int_max_str_digits L) ds = None"
  shows "best_loop L b best_url best_size (part # parts) = Inl ValueError"
  using assms by simp

text \<open>
  The Daily Mail parser does what claim C4 says, for every descriptor string: it raises
  nothing and returns the candidates of the specification's parser, in the order of the
  input; a string of whitespace only gives the empty list.
\<close>

lemma parse_srcset_blank:
  assumes "list_all isspace srcset"
  shows "parse_srcset L srcset = Inr []"
  using assms by (simp add: parse_srcset_spec spec_parse_def tokens_all_space)

lemma parse_srcset_examples:
  "parse_srcset ex_lib ''a.jpg 200w, b.jpg 800w'' =
     Inr [(''a.jpg'', Some 200, None), (''b.jpg'', Some 800, None)]"
  "parse_srcset ex_lib ''x.jpg 1.5x, y.jpg wide ,, z.jpg'' =
     Inr [(''x.jpg'', None, Some (15, 1)), (''y.jpg'', None, None), (''z.jpg'', None, None)]"
  "parse_srcset ex_lib '' '' = Inr []"
  by code_simp+

text \<open>
  In \<open>best_from_srcset\<close> the join of a candidate is outside any \<^verbatim>\<open>try\<close> as well, and
  \<^verbatim>\<open>main\<close> of the Guardian script has none around the extraction.
\<close>

lemma best_loop_join_raises:
  assumes "candidate_match part = Some (u, ds)" "py_int (int_max_str_digits L) ds = Some sz"
    and "best_size < sz" "urljoin L b u = Inl e"
  shows "best_loop L b best_url best_size (part # parts) = Inl e"
  using assms by simp

text \<open>
  Claim C4, at the input where the Guardian script departs from it: a descriptor whose
  first candidate has the density \<^verbatim>\<open>1.5x\<close>. The pattern of \<open>best_from_srcset\<close> takes whole
  numbers only, so the token is not cut into a URL and a suffix: the loop ends at once
  and returns the whole token, suffix included, as the URL, and the second candidate is
  never read. The Daily Mail parser gives the two candidates with their densities.
\<close>

theorem guardian_keeps_suffix_in_url:
  "best_from_srcset ex_lib ''https://i.guim.co.uk/a.jpg 1.5x, https://i.guim.co.uk/b.jpg 2x''
     ''https://www.theguardian.com/p'' = Inr (Some ''https://i.guim.co.uk/a.jpg 1.5x'') \<and>
   parse_srcset ex_lib ''https://i.guim.co.uk/a.jpg 1.5x, https://i.guim.co.uk/b.jpg 2x''
     = Inr [(''https://i.guim.co.uk/a.jpg'', None, Some (15, 1)),
            (''https://i.guim.co.uk/b.jpg'', None, Some (2, 0))] \<and>
   best_from_srcset ex_lib ''https://i.guim.co.uk/a.jpg 1x, https://i.guim.co.uk/b.jpg 2x''
     ''https://www.theguardian.com/p'' = Inr (Some ''https://i.guim.co.uk/b.jpg'')"
  by code_simp

section \<open>The size pattern in file names\<close>




text \<open>
  The search finds a match that starts behind no digit, and finds one whenever there is
  one.
\<close>

lemma size_search_sound:
  "size_search prev u = Some m \<Longrightarrow>
     \<exists>pre s. u = pre @ s \<and> size_match_at s = Some m \<and>
       \<not> (if pre = [] then prev else isdigit (last pre))"
proof (induction u arbitrary: prev)
  case Nil
  then show ?case by simp
next
  case (Cons c cs)
  show ?case
  proof (cases "\<not> prev \<and> size_match_at (c # cs) = Some m")
    case True
    then have "c # cs = [] @ (c # cs) \<and> size_match_at (c # cs) = Some m \<and>
        \<not> (if ([] :: string) = [] then prev else isdigit (last []))" by simp
    then show ?thesis by blast
  next
    case False
    with Cons.prems have "size_search (isdigit c) cs = Some m"
      by (auto split: if_splits option.splits)
    from Cons.IH [OF this] obtain pre s where ps: "cs = pre @ s" "size_match_at s = Some m"
      "\<not> (if pre = [] then isdigit c else isdigit (last pre))" by blast
    then have "c # cs = (c # pre) @ s \<and> size_match_at s = Some m \<and>
        \<not> (if c # pre = [] then prev else isdigit (last (c # pre)))" by auto
    then show ?thesis by blast
  qed
qed

lemma size_search_complete:
  "u = pre @ s \<Longrightarrow> size_match_at s \<noteq> None \<Longrightarrow>
     \<not> (if pre = [] then prev else isdigit (last pre)) \<Longrightarrow> size_search prev u \<noteq> None"
proof (induction pre arbitrary: u prev)
  case Nil
  then have "s \<noteq> []" by (auto simp: size_match_at_def)
  with Nil show ?case by (cases s) (auto split: option.splits)
next
  case (Cons c pre)
  have "size_search (isdigit c) (pre @ s) \<noteq> None"
    using Cons.IH [of "pre @ s" "isdigit c"] Cons.prems(2,3) by (auto split: if_splits)
  with Cons.prems(1) show ?case by (auto split: option.splits)
qed















section \<open>The candidate selector\<close>



















text \<open>
  The code searches the pattern in the whole URL, not in the file name of the docstring
  of \<^verbatim>\<open>_score_url\<close>: a size in a directory is scored. The theorem of C1 leaves URLs with
  such a directory aside.
\<close>

lemma score_url_reads_directory:
  "score_url ''https://i.dailymail.co.uk/640x480/a.jpg'' = 307200 \<and>
   spec_score ''https://i.dailymail.co.uk/640x480/a.jpg'' = 39 \<and>
   spec_patterns (dir_part ''https://i.dailymail.co.uk/640x480/a.jpg'') = [(''640'', ''480'')]"
  by code_simp


section \<open>The rewrite of Guardian URLs\<close>

lemma contains_mid: "contains sub (pre @ sub @ post)"
proof (induction pre)
  case Nil
  have "take (length sub) (sub @ post) = sub" by simp
  then show ?case by (cases "sub @ post") (auto simp: startswith_def)
next
  case (Cons c pre)
  then show ?case by simp
qed

lemma startswithE:
  assumes "startswith s pre"
  obtains rest where "s = pre @ rest"
  using assms append_take_drop_id [of "length pre" s] unfolding startswith_def by metis

lemma split_on_piece:
  "p \<in> set (split_on sep cur s) \<Longrightarrow> \<exists>pre post. cur @ s = pre @ p @ post"
proof (induction s arbitrary: cur)
  case Nil
  then have "cur @ [] = [] @ p @ []" by simp
  then show ?case by blast
next
  case (Cons c cs)
  show ?case
  proof (cases "c = sep")
    case True
    with Cons.prems have "p = cur \<or> p \<in> set (split_on sep [] cs)" by simp
    then show ?thesis
    proof
      assume "p = cur"
      then have "cur @ c # cs = [] @ p @ (c # cs)" by simp
      then show ?thesis by blast
    next
      assume "p \<in> set (split_on sep [] cs)"
      from Cons.IH [OF this] obtain pre post where "cs = pre @ p @ post" by auto
      then have "cur @ c # cs = (cur @ c # pre) @ p @ post" by simp
      then show ?thesis by blast
    qed
  next
    case False
    with Cons.prems have "p \<in> set (split_on sep (cur @ [c]) cs)" by simp
    from Cons.IH [OF this] show ?thesis by simp
  qed
qed

lemma signed_query_marker:
  assumes "signed_query q"
  shows "contains ''s='' (lower q)"
proof -
  from assms obtain p where p: "p \<in> set (split_on (CHR ''&'') [] q)"
    and st: "startswith (lower p) ''s=''" by (auto simp: signed_query_def list_ex_iff)
  from split_on_piece [OF p] obtain pre post where q: "q = pre @ p @ post" by auto
  from st obtain rest where "lower p = ''s='' @ rest" by (rule startswithE)
  then have "lower q = lower pre @ ''s='' @ (rest @ lower post)"
    using q by (simp add: lower_def)
  then show ?thesis using contains_mid [of "''s=''" "lower pre"] by simp
qed

text \<open>
  The result list grows through \<open>g_consider\<close> only, so whatever holds of every rewrite
  of a URL that passed the host filter holds of every URL a parser has collected.
\<close>

lemma region_open_images:
  "images (region_open s tag at) = images s" "seen (region_open s tag at) = seen s"
  "base (region_open s tag at) = base s"
  by (simp_all add: region_open_def Let_def)

lemma region_close_images:
  "images (region_close s tag) = images s" "seen (region_close s tag) = seen s"
  "base (region_close s tag) = base s"
  by (simp_all add: region_close_def Let_def)

lemma picture_update_images:
  "images (picture_update s at u) = images s" "seen (picture_update s at u) = seen s"
  "base (picture_update s at u) = base s"
  by (auto simp: picture_update_def Let_def split: option.splits)

lemma g_consider_emitted:
  assumes "g_consider L s u = Inr s'" "\<forall>f \<in> set (images s). Q f"
    and "\<forall>j f. keep_guardian_cdn L j \<longrightarrow> upgrade_guardian_url L j 2000 = Inr f \<longrightarrow> Q f"
  shows "\<forall>f \<in> set (images s'). Q f"
  using assms by (auto simp: g_consider_def split: if_splits sum.splits)

lemma g_consider_all_emitted:
  assumes "\<forall>j f. keep_guardian_cdn L j \<longrightarrow> upgrade_guardian_url L j 2000 = Inr f \<longrightarrow> Q f"
  shows "g_consider_all L s us = Inr s' \<Longrightarrow> \<forall>f \<in> set (images s). Q f \<Longrightarrow>
    \<forall>f \<in> set (images s'). Q f"
proof (induction us arbitrary: s)
  case Nil
  then show ?case by simp
next
  case (Cons u us)
  from Cons.prems(1) obtain s1 where 1: "g_consider L s u = Inr s1"
    and 2: "g_consider_all L s1 us = Inr s'" by (auto split: sum.splits)
  from g_consider_emitted [OF 1 Cons.prems(2) assms] have "\<forall>f \<in> set (images s1). Q f" by blast
  from Cons.IH [OF 2 this] show ?case .
qed

lemma style_step_emitted:
  assumes "style_step L s at = Inr s'" "\<forall>f \<in> set (images s). Q f"
    and "\<forall>j f. keep_guardian_cdn L j \<longrightarrow> upgrade_guardian_url L j 2000 = Inr f \<longrightarrow> Q f"
  shows "\<forall>f \<in> set (images s'). Q f"
proof (cases "style_step L s at = Inr s")
  case True
  with assms(1,2) show ?thesis by simp
next
  case False
  with assms(1) obtain u where "g_consider L s u = Inr s'"
    by (auto simp: style_step_def split: if_splits option.splits)
  from g_consider_emitted [OF this assms(2,3)] show ?thesis by blast
qed

lemma g_handle_starttag_emitted:
  assumes h: "g_handle_starttag L s tag at = Inr s'" and i: "\<forall>f \<in> set (images s). Q f"
    and q: "\<forall>j f. keep_guardian_cdn L j \<longrightarrow> upgrade_guardian_url L j 2000 = Inr f \<longrightarrow> Q f"
  shows "\<forall>f \<in> set (images s'). Q f"
proof -
  let ?r = "region_open s tag at"
  have r: "\<forall>f \<in> set (images ?r). Q f" using i by (simp add: region_open_images)
  define c where "c \<longleftrightarrow> (in_figure ?r \<noteq> 0 \<or> in_lightbox ?r \<noteq> 0) \<and> (tag = ''img'' \<or> tag = ''source'')"
  have hd: "(if c
         then (case pick_from_attrs L ?r at of
                 Inl e \<Rightarrow> Inl e
               | Inr (None, sz) \<Rightarrow> Inr ?r
               | Inr (Some u, sz) \<Rightarrow>
                   if u = [] then Inr ?r
                   else (case (if in_picture ?r \<noteq> 0 then Inr (picture_update ?r at u)
                               else g_consider L ?r u) of
                           Inl e \<Rightarrow> Inl e
                         | Inr s1 \<Rightarrow> style_step L s1 at))
         else style_step L ?r at) = Inr s'"
    using h unfolding g_handle_starttag_def Let_def c_def .
  consider (a) "s' = ?r" | (b) "style_step L ?r at = Inr s'"
    | (c) u where "style_step L (picture_update ?r at u) at = Inr s'"
    | (d) u s1 where "g_consider L ?r u = Inr s1" "style_step L s1 at = Inr s'"
  proof (cases c)
    case False
    with hd have "style_step L ?r at = Inr s'" by simp
    then show ?thesis by (rule b)
  next
    case True
    show ?thesis
    proof (cases "pick_from_attrs L ?r at")
      case (Inl e)
      with hd True show ?thesis by simp
    next
      case (Inr pr)
      obtain uo sz where pr: "pr = (uo, sz)" by (cases pr)
      show ?thesis
      proof (cases uo)
        case None
        with hd True Inr pr have "s' = ?r" by simp
        then show ?thesis by (rule a)
      next
        case (Some u)
        show ?thesis
        proof (cases "u = []")
          case True
          with hd \<open>c\<close>
            Inr pr Some have "s' = ?r" by simp
          then show ?thesis by (rule a)
        next
          case False
          note ne = False
          show ?thesis
          proof (cases "in_picture ?r \<noteq> 0")
            case True
            with hd \<open>c\<close>
              Inr pr Some ne have "style_step L (picture_update ?r at u) at = Inr s'" by simp
            then show ?thesis by (rule c)
          next
            case False
            with hd \<open>c\<close>
              Inr pr Some ne
            have "(case g_consider L ?r u of Inl e \<Rightarrow> Inl e | Inr s1 \<Rightarrow> style_step L s1 at) = Inr s'"
              by simp
            then obtain s1 where "g_consider L ?r u = Inr s1" "style_step L s1 at = Inr s'"
              by (cases "g_consider L ?r u") auto
            then show ?thesis by (rule d)
          qed
        qed
      qed
    qed
  qed
  then show ?thesis
  proof cases
    case a
    with r show ?thesis by simp
  next
    case b
    from style_step_emitted [OF b r q] show ?thesis by blast
  next
    case c
    have "\<forall>f \<in> set (images (picture_update ?r at u)). Q f"
      using i by (simp add: region_open_images picture_update_images)
    from style_step_emitted [OF c this q] show ?thesis by blast
  next
    case d
    from g_consider_emitted [OF d(1) r q] have "\<forall>f \<in> set (images s1). Q f" by blast
    from style_step_emitted [OF d(2) this q] show ?thesis by blast
  qed
qed

lemma g_handle_endtag_emitted:
  assumes h: "g_handle_endtag L s tag = Inr s'" and i: "\<forall>f \<in> set (images s). Q f"
    and q: "\<forall>j f. keep_guardian_cdn L j \<longrightarrow> upgrade_guardian_url L j 2000 = Inr f \<longrightarrow> Q f"
  shows "\<forall>f \<in> set (images s'). Q f"
proof -
  from h consider (a) "images s' = images s"
    | (b) u s1 where "g_consider L s u = Inr s1" "images s' = images s1"
    by (auto simp: g_handle_endtag_def commit_picture_best_def region_close_images
        split: if_splits sum.splits option.splits prod.splits)
  then show ?thesis
  proof cases
    case a
    with i show ?thesis by simp
  next
    case b
    from g_consider_emitted [OF b(1) i q] b(2) show ?thesis by simp
  qed
qed

lemma g_handle_emitted:
  assumes h: "g_handle L s e = Inr s'" and i: "\<forall>f \<in> set (images s). Q f"
    and q: "\<forall>j f. keep_guardian_cdn L j \<longrightarrow> upgrade_guardian_url L j 2000 = Inr f \<longrightarrow> Q f"
  shows "\<forall>f \<in> set (images s'). Q f"
proof (cases e)
  case (StartTag t at)
  with h have "g_handle_starttag L s t at = Inr s'" by simp
  from g_handle_starttag_emitted [OF this i q] show ?thesis by blast
next
  case (EndTag t)
  with h have "g_handle_endtag L s t = Inr s'" by simp
  from g_handle_endtag_emitted [OF this i q] show ?thesis by blast
next
  case (Data d)
  show ?thesis
  proof (cases "s' = s")
    case True
    with i show ?thesis by simp
  next
    case False
    with h Data have "g_consider_all L s (img_finditer 0 (unescape L d)) = Inr s'"
      by (auto simp: g_handle_data_def split: if_splits)
    from g_consider_all_emitted [OF q this i] show ?thesis by blast
  qed
qed

lemma g_feed_emitted:
  assumes q: "\<forall>j f. keep_guardian_cdn L j \<longrightarrow> upgrade_guardian_url L j 2000 = Inr f \<longrightarrow> Q f"
  shows "g_feed L s es = Inr s' \<Longrightarrow> \<forall>f \<in> set (images s). Q f \<Longrightarrow> \<forall>f \<in> set (images s'). Q f"
proof (induction es arbitrary: s)
  case Nil
  then show ?case by simp
next
  case (Cons e es)
  from Cons.prems(1) obtain s1 where 1: "g_handle L s e = Inr s1"
    and 2: "g_feed L s1 es = Inr s'" by (auto split: sum.splits)
  from g_handle_emitted [OF 1 Cons.prems(2) q] have "\<forall>f \<in> set (images s1). Q f" by blast
  from Cons.IH [OF 2 this] show ?case .
qed

lemma upgrade_changed_unsigned:
  assumes "upgrade_guardian_url L url width = Inr url'" "url' \<noteq> url"
  shows "contains ''i.guim.co.uk'' url \<and> (\<exists>p. urlparse L url = Inr p \<and> \<not> signed_query (query p))"
proof -
  from assms have g: "contains ''i.guim.co.uk'' url"
    by (auto simp: upgrade_guardian_url_def split: if_splits)
  with assms obtain p where p: "urlparse L url = Inr p"
    by (cases "urlparse L url") (auto simp: upgrade_guardian_url_def)
  with assms g have "\<not> contains ''s='' (lower (query p))"
    by (auto simp: upgrade_guardian_url_def split: if_splits)
  then have "\<not> signed_query (query p)" using signed_query_marker by blast
  with g p show ?thesis by blast
qed

text \<open>
  Claim C6. A URL that parses and whose query string carries the signature marker comes
  back from \<open>upgrade_guardian_url\<close> as it went in; and whenever the function returns a
  URL other than its input, the input contains \<^verbatim>\<open>i.guim.co.uk\<close> and its query string
  carries no signature marker. The function is called from \<^verbatim>\<open>_consider\<close> only, behind the
  host filter: for every page, each URL of the extraction result is the rewrite of a URL
  whose host ends in \<^verbatim>\<open>i.guim.co.uk\<close>, and differs from it only when that URL carries no
  signature marker.
\<close>

theorem upgrade_keeps_signed_urls:
  "(urlparse L url = Inr parsed \<and> signed_query (query parsed)
      \<longrightarrow> upgrade_guardian_url L url width = Inr url) \<and>
   (upgrade_guardian_url L url width = Inr url' \<and> url' \<noteq> url
      \<longrightarrow> contains ''i.guim.co.uk'' url \<and>
          (\<exists>p. urlparse L url = Inr p \<and> \<not> signed_query (query p))) \<and>
   (extract_guardian_images L b es = Inr res
      \<longrightarrow> (\<forall>final \<in> set res. \<exists>j p.
             urlparse L j = Inr p \<and> endswith (lower (netloc p)) ''i.guim.co.uk'' \<and>
             upgrade_guardian_url L j 2000 = Inr final \<and>
             (final \<noteq> j \<longrightarrow> \<not> signed_query (query p))))"
proof -
  have c1: "urlparse L url = Inr parsed \<and> signed_query (query parsed)
      \<longrightarrow> upgrade_guardian_url L url width = Inr url"
  proof
    assume a: "urlparse L url = Inr parsed \<and> signed_query (query parsed)"
    then have "contains ''s='' (lower (query parsed))" by (simp add: signed_query_marker)
    with a show "upgrade_guardian_url L url width = Inr url"
      by (simp add: upgrade_guardian_url_def)
  qed
  have c2: "upgrade_guardian_url L url width = Inr url' \<and> url' \<noteq> url
      \<longrightarrow> contains ''i.guim.co.uk'' url \<and>
          (\<exists>p. urlparse L url = Inr p \<and> \<not> signed_query (query p))"
    using upgrade_changed_unsigned by blast
  let ?Q = "\<lambda>final. \<exists>j p.
             urlparse L j = Inr p \<and> endswith (lower (netloc p)) ''i.guim.co.uk'' \<and>
             upgrade_guardian_url L j 2000 = Inr final \<and>
             (final \<noteq> j \<longrightarrow> \<not> signed_query (query p))"
  have c3: "extract_guardian_images L b es = Inr res \<longrightarrow> (\<forall>final \<in> set res. ?Q final)"
  proof
    assume "extract_guardian_images L b es = Inr res"
    then obtain s where f: "g_feed L (g_init b) es = Inr s" and r: "res = images s"
      by (auto simp: extract_guardian_images_def split: sum.splits)
    have q0: "?Q f" if k: "keep_guardian_cdn L j" and u: "upgrade_guardian_url L j 2000 = Inr f"
      for j f
    proof -
      from k obtain p where p: "urlparse L j = Inr p"
        "endswith (lower (netloc p)) ''i.guim.co.uk''"
        by (auto simp: keep_guardian_cdn_def split: sum.splits)
      have "\<not> signed_query (query p)" if "f \<noteq> j"
        using upgrade_changed_unsigned [OF u that] p(1) by auto
      with p u show ?thesis by blast
    qed
    then have q: "\<forall>j f. keep_guardian_cdn L j \<longrightarrow> upgrade_guardian_url L j 2000 = Inr f \<longrightarrow> ?Q f"
      by blast
    have "\<forall>f \<in> set (images (g_init b)). ?Q f" by (simp add: g_init_def)
    from g_feed_emitted [of L ?Q, OF q f this]
    show "\<forall>final \<in> set res. ?Q final" unfolding r .
  qed
  show ?thesis by (rule conjI [OF c1 conjI [OF c2 c3]])
qed

text \<open>
  The theorem of C6 at a signed image URL, which stays as it is, at an unsigned one,
  which gets \<^verbatim>\<open>width=2000\<close> and \<^verbatim>\<open>dpr=2\<close>, and at a page with the unsigned one in a figure.
\<close>

theorem upgrade_keeps_signed_urls_witness:
  "(\<exists>parsed. urlparse ex_lib ex_signed = Inr parsed \<and> signed_query (query parsed)) \<and>
   upgrade_guardian_url ex_lib ex_signed 2000 = Inr ex_signed \<and>
   upgrade_guardian_url ex_lib ex_unsigned 2000
     = Inr ''https://i.guim.co.uk/img/media/a/master/3000.jpg?width=2000&dpr=2'' \<and>
   ''https://i.guim.co.uk/img/media/a/master/3000.jpg?width=2000&dpr=2'' \<noteq> ex_unsigned \<and>
   contains ''i.guim.co.uk'' ex_unsigned \<and>
   (\<exists>p. urlparse ex_lib ex_unsigned = Inr p \<and> \<not> signed_query (query p)) \<and>
   extract_guardian_images ex_lib ex_page
     (ex_figure_open @ [StartTag ''img'' [(''src'', Some ex_unsigned)]])
     = Inr [''https://i.guim.co.uk/img/media/a/master/3000.jpg?width=2000&dpr=2''] \<and>
   (\<exists>j p. urlparse ex_lib j = Inr p \<and> endswith (lower (netloc p)) ''i.guim.co.uk'' \<and>
      upgrade_guardian_url ex_lib j 2000
        = Inr ''https://i.guim.co.uk/img/media/a/master/3000.jpg?width=2000&dpr=2'')"
proof -
  let ?p = "\<lparr> scheme = ''https'', netloc = ''i.guim.co.uk'',
     path = ''/img/media/a/master/3000.jpg'', params = [],
     query = ''width=300&quality=85&s=0f3a9c'', fragment = [] \<rparr>"
  let ?big = "''https://i.guim.co.uk/img/media/a/master/3000.jpg?width=2000&dpr=2''"
  have u: "urlparse ex_lib ex_signed = Inr ?p" by code_simp
  have s: "signed_query (query ?p)" by code_simp
  have c: "upgrade_guardian_url ex_lib ex_unsigned 2000 = Inr ?big" by code_simp
  have d: "?big \<noteq> ex_unsigned" by code_simp
  have e: "extract_guardian_images ex_lib ex_page
     (ex_figure_open @ [StartTag ''img'' [(''src'', Some ex_unsigned)]]) = Inr [?big]"
    by code_simp
  note t = upgrade_keeps_signed_urls
  from t [of ex_lib ex_signed ?p 2000, THEN conjunct1] u s
  have a: "upgrade_guardian_url ex_lib ex_signed 2000 = Inr ex_signed" by blast
  from t [of ex_lib ex_unsigned _ 2000 ?big, THEN conjunct2, THEN conjunct1] c d
  have b: "contains ''i.guim.co.uk'' ex_unsigned \<and>
     (\<exists>p. urlparse ex_lib ex_unsigned = Inr p \<and> \<not> signed_query (query p))" by blast
  from t [where L = ex_lib and b = ex_page
      and es = "ex_figure_open @ [StartTag ''img'' [(''src'', Some ex_unsigned)]]"
      and res = "[?big]", THEN conjunct2, THEN conjunct2] e
  have f: "\<exists>j p. urlparse ex_lib j = Inr p \<and> endswith (lower (netloc p)) ''i.guim.co.uk'' \<and>
      upgrade_guardian_url ex_lib j 2000 = Inr ?big" by auto
  from u s a b c d e f show ?thesis by blast
qed

text \<open>
  Taken alone the function goes by the text of the URL, not by its host; the host is
  tested by \<open>keep_guardian_cdn\<close> before the call, so such a URL never reaches it.
\<close>

lemma upgrade_goes_by_text:
  "upgrade_guardian_url ex_lib ''https://example.com/i.guim.co.uk/a.jpg'' 2000
     = Inr ''https://example.com/i.guim.co.uk/a.jpg?width=2000&dpr=2'' \<and>
   \<not> keep_guardian_cdn ex_lib ''https://example.com/i.guim.co.uk/a.jpg'' \<and>
   extract_guardian_images ex_lib ex_page
     (ex_figure_open @ [StartTag ''img'' [(''src'', Some ''https://example.com/i.guim.co.uk/a.jpg'')]])
     = Inr []"
  by code_simp

section \<open>The file-name counter and failed downloads\<close>

lemma g_save_loop_names:
  "g_save_loop L retrieve outdir names idx lg urls = Inr (names', idx', lg') \<Longrightarrow>
     idx' = idx + int (length urls) \<and>
     (\<exists>new. names' = names @ new \<and> length new = length urls \<and>
        (\<forall>i < length urls. \<exists>ext. safe_ext L (urls ! i) = Inr ext \<and>
           new ! i = ''guardian_'' @ str_int (idx + 1 + int i) @ ext))"
proof (induction urls arbitrary: names idx lg)
  case Nil
  then show ?case by simp
next
  case (Cons u us)
  from Cons.prems obtain name line where
    s: "save_image L retrieve outdir u (idx + 1) = Inr (name, line)"
    and r: "g_save_loop L retrieve outdir (names @ [name]) (idx + 1) (lg @ [line]) us
              = Inr (names', idx', lg')"
    by (auto split: sum.splits)
  from s obtain ext where e: "safe_ext L u = Inr ext"
    and n: "name = ''guardian_'' @ str_int (idx + 1) @ ext"
    by (auto simp: save_image_def Let_def split: sum.splits)
  from Cons.IH [OF r] obtain new where i: "idx' = idx + 1 + int (length us)"
    and new: "names' = (names @ [name]) @ new" "length new = length us"
    and each: "\<forall>i < length us. \<exists>ext. safe_ext L (us ! i) = Inr ext \<and>
           new ! i = ''guardian_'' @ str_int (idx + 1 + 1 + int i) @ ext" by blast
  have "\<exists>ext. safe_ext L ((u # us) ! i) = Inr ext \<and>
           (name # new) ! i = ''guardian_'' @ str_int (idx + 1 + int i) @ ext"
    if "i < length (u # us)" for i
  proof (cases i)
    case 0
    with e n show ?thesis by simp
  next
    case (Suc j)
    with that have "j < length us" by simp
    with each obtain ext' where "safe_ext L (us ! j) = Inr ext'"
      "new ! j = ''guardian_'' @ str_int (idx + 1 + 1 + int j) @ ext'" by blast
    moreover have "idx + 1 + 1 + int j = idx + 1 + int (Suc j)" by simp
    ultimately show ?thesis using Suc by (simp add: algebra_simps)
  qed
  with i new show ?case by auto
qed

lemma dm_download_loop_outcomes:
  assumes "\<forall>u t. retrieve u t = ok u"
  shows "dm_download_loop L retrieve outdir saved idx lg urls = Inr (saved', idx', lg') \<Longrightarrow>
     idx' = idx + int (length (filter ok urls)) \<and>
     lg' = lg @ map Failed (filter (\<lambda>u. \<not> ok u) urls) \<and>
     (\<exists>new. saved' = saved @ new \<and> length new = length (filter ok urls) \<and>
        (\<forall>i < length new. \<exists>ext. ext_from_url L (filter ok urls ! i) = Inr ext \<and>
           new ! i = ''dailymail_'' @ str_int (idx + int i) @ ext))"
proof (induction urls arbitrary: saved idx lg)
  case Nil
  then show ?case by simp
next
  case (Cons u us)
  from Cons.prems obtain ext where e: "ext_from_url L u = Inr ext"
    by (auto split: sum.splits)
  let ?fname = "''dailymail_'' @ str_int idx @ ext"
  have r: "retrieve u (path_join outdir ?fname) = ok u" using assms by simp
  show ?case
  proof (cases "ok u")
    case True
    with Cons.prems e r
    have "dm_download_loop L retrieve outdir (saved @ [?fname]) (idx + 1) lg us
            = Inr (saved', idx', lg')" by (simp add: Let_def)
    from Cons.IH [OF this] obtain new where i: "idx' = idx + 1 + int (length (filter ok us))"
      and l: "lg' = lg @ map Failed (filter (\<lambda>u. \<not> ok u) us)"
      and new: "saved' = (saved @ [?fname]) @ new" "length new = length (filter ok us)"
      and each: "\<forall>i < length new. \<exists>ext. ext_from_url L (filter ok us ! i) = Inr ext \<and>
           new ! i = ''dailymail_'' @ str_int (idx + 1 + int i) @ ext" by blast
    have "\<exists>ext. ext_from_url L (filter ok (u # us) ! i) = Inr ext \<and>
           (?fname # new) ! i = ''dailymail_'' @ str_int (idx + int i) @ ext"
      if "i < length (?fname # new)" for i
    proof (cases i)
      case 0
      with e True show ?thesis by simp
    next
      case (Suc j)
      with that have "j < length new" by simp
      with each obtain ext' where "ext_from_url L (filter ok us ! j) = Inr ext'"
        "new ! j = ''dailymail_'' @ str_int (idx + 1 + int j) @ ext'" by blast
      moreover have "idx + 1 + int j = idx + int (Suc j)" by simp
      ultimately show ?thesis using Suc True by (simp add: algebra_simps)
    qed
    with i l new True show ?thesis by auto
  next
    case False
    with Cons.prems e r
    have "dm_download_loop L retrieve outdir saved idx (lg @ [Failed u]) us
            = Inr (saved', idx', lg')" by (simp add: Let_def)
    from Cons.IH [OF this] False show ?thesis by simp
  qed
qed

text \<open>
  Claim C7, as amended. The Guardian script raises its counter before each download is
  tried: after a page the counter has advanced by the number of image URLs, and the
  \<open>i\<close>-th URL got the \<open>i\<close>-th number, whatever the downloads did. The Daily Mail script
  raises its counter only after a download that succeeded: where the outcome \<open>ok\<close> of a
  download depends on the URL alone, the counter has advanced by the number of URLs that
  could be fetched, those URLs got the numbers in a row without a gap, and each of the
  others is logged as failed and got no name.
\<close>

theorem counter_policies:
  "(g_save_loop L retrieve outdir [] global_idx [] urls = Inr (names, idx, lg)
      \<longrightarrow> idx = global_idx + int (length urls) \<and> length names = length urls \<and>
          (\<forall>i < length urls. \<exists>ext. safe_ext L (urls ! i) = Inr ext \<and>
             names ! i = ''guardian_'' @ str_int (global_idx + 1 + int i) @ ext)) \<and>
   ((\<forall>u t. retrieve u t = ok u) \<and>
    download_images_sequential L retrieve urls outdir start_index = Inr (saved, idx', lg')
      \<longrightarrow> idx' = start_index + int (length (filter ok urls)) \<and>
          length saved = length (filter ok urls) \<and>
          (\<forall>i < length saved. \<exists>ext. ext_from_url L (filter ok urls ! i) = Inr ext \<and>
             saved ! i = ''dailymail_'' @ str_int (start_index + int i) @ ext) \<and>
          lg' = map Failed (filter (\<lambda>u. \<not> ok u) urls))"
proof (rule conjI; rule impI)
  assume "g_save_loop L retrieve outdir [] global_idx [] urls = Inr (names, idx, lg)"
  from g_save_loop_names [OF this]
  show "idx = global_idx + int (length urls) \<and> length names = length urls \<and>
          (\<forall>i < length urls. \<exists>ext. safe_ext L (urls ! i) = Inr ext \<and>
             names ! i = ''guardian_'' @ str_int (global_idx + 1 + int i) @ ext)" by auto
next
  assume a: "(\<forall>u t. retrieve u t = ok u) \<and>
    download_images_sequential L retrieve urls outdir start_index = Inr (saved, idx', lg')"
  then have "dm_download_loop L retrieve outdir [] start_index [] urls = Inr (saved, idx', lg')"
    by (simp add: download_images_sequential_def)
  from dm_download_loop_outcomes [OF a [THEN conjunct1] this]
  show "idx' = start_index + int (length (filter ok urls)) \<and>
          length saved = length (filter ok urls) \<and>
          (\<forall>i < length saved. \<exists>ext. ext_from_url L (filter ok urls ! i) = Inr ext \<and>
             saved ! i = ''dailymail_'' @ str_int (start_index + int i) @ ext) \<and>
          lg' = map Failed (filter (\<lambda>u. \<not> ok u) urls)" by auto
qed

text \<open>
  The theorem of C7 on three URLs of which the second cannot be fetched: the Guardian
  script uses the numbers 1, 2, 3 and ends at 3; the Daily Mail script, started at 1,
  gives 1 and 2 to the two URLs that can be fetched and ends at 3.
\<close>

theorem counter_policies_witness:
  "g_save_loop ex_lib ex_retrieve ''guardian_images'' [] 0 [] ex_urls
     = Inr ([''guardian_1.jpg'', ''guardian_2.png'', ''guardian_3.webp''], 3,
            [Saved ''guardian_1.jpg'' ''https://i.guim.co.uk/img/a.jpg?s=1'',
             Failed ''https://i.guim.co.uk/img/b.png?s=2'',
             Saved ''guardian_3.webp'' ''https://i.guim.co.uk/img/c.webp?s=3'']) \<and>
   3 = 0 + int (length ex_urls) \<and>
   (\<forall>u t. ex_retrieve u t = (u \<noteq> ''https://i.guim.co.uk/img/b.png?s=2'')) \<and>
   filter (\<lambda>u. u \<noteq> ''https://i.guim.co.uk/img/b.png?s=2'') ex_urls
     = [''https://i.guim.co.uk/img/a.jpg?s=1'', ''https://i.guim.co.uk/img/c.webp?s=3''] \<and>
   download_images_sequential ex_lib ex_retrieve ex_urls ''dailymail_images'' 1
     = Inr ([''dailymail_1.jpg'', ''dailymail_2.webp''], 3,
            [Failed ''https://i.guim.co.uk/img/b.png?s=2'']) \<and>
   (3 :: int) = 1 + int (length (filter (\<lambda>u. u \<noteq> ''https://i.guim.co.uk/img/b.png?s=2'') ex_urls))"
proof -
  let ?ok = "\<lambda>u. u \<noteq> ''https://i.guim.co.uk/img/b.png?s=2''"
  have g: "g_save_loop ex_lib ex_retrieve ''guardian_images'' [] 0 [] ex_urls
     = Inr ([''guardian_1.jpg'', ''guardian_2.png'', ''guardian_3.webp''], 3,
            [Saved ''guardian_1.jpg'' ''https://i.guim.co.uk/img/a.jpg?s=1'',
             Failed ''https://i.guim.co.uk/img/b.png?s=2'',
             Saved ''guardian_3.webp'' ''https://i.guim.co.uk/img/c.webp?s=3''])" by code_simp
  have d: "download_images_sequential ex_lib ex_retrieve ex_urls ''dailymail_images'' 1
     = Inr ([''dailymail_1.jpg'', ''dailymail_2.webp''], 3,
            [Failed ''https://i.guim.co.uk/img/b.png?s=2''])" by code_simp
  have r: "\<forall>u t. ex_retrieve u t = ?ok u" by (simp add: ex_retrieve_def)
  have f: "filter ?ok ex_urls
     = [''https://i.guim.co.uk/img/a.jpg?s=1'', ''https://i.guim.co.uk/img/c.webp?s=3'']"
    by code_simp
  note t = counter_policies [where L = ex_lib and retrieve = ex_retrieve and urls = ex_urls]
  from t [where outdir = "''guardian_images''" and global_idx = 0, THEN conjunct1] g
  have a: "3 = 0 + int (length ex_urls)" by blast
  from t [where outdir = "''dailymail_images''" and start_index = 1 and ok = ?ok,
      THEN conjunct2] r d
  have b: "(3 :: int) = 1 + int (length (filter ?ok ex_urls))" by blast
  from g d a b r f show ?thesis by blast
qed

text \<open>
  Claim C7 as stated says that the second pipeline raises the counter whatever the
  download does. In the Daily Mail script the counter stays at 1 when the download
  fails and goes to 2 when it succeeds.
\<close>

theorem dailymail_counter_follows_outcome:
  "download_images_sequential ex_lib (\<lambda>u target. False) [''https://i.dailymail.co.uk/a.jpg'']
     ''dailymail_images'' 1 = Inr ([], 1, [Failed ''https://i.dailymail.co.uk/a.jpg'']) \<and>
   download_images_sequential ex_lib (\<lambda>u target. True) [''https://i.dailymail.co.uk/a.jpg'']
     ''dailymail_images'' 1 = Inr ([''dailymail_1.jpg''], 2, [])"
  by code_simp

text \<open>
  A failed download in the Daily Mail script: the line is logged, no name is added, the
  counter stays, and the loop goes on with the remaining URLs.
\<close>

lemma dm_failed_download_skipped:
  assumes "ext_from_url L u = Inr ext"
    and "\<not> retrieve u (path_join outdir (''dailymail_'' @ str_int idx @ ext))"
  shows "dm_download_loop L retrieve outdir saved idx lg (u # us)
           = dm_download_loop L retrieve outdir saved idx (lg @ [Failed u]) us"
  using assms by (simp add: Let_def)

text \<open>
  Claim C8, at the input where the Guardian script departs from it: one page with one
  image whose download fails. \<^verbatim>\<open>save_image\<close> logs the failure and still returns the name,
  so the row of the page counts one image and lists \<^verbatim>\<open>guardian_1.jpg\<close>, a file that was
  never written.
\<close>

theorem guardian_row_lists_failed_download:
  "g_main ex_lib (\<lambda>u. Some ex_lightbox_page) (\<lambda>u target. False) ''guardian_images'' [ex_page]
     = Inr ([(ex_page, 1, [''guardian_1.jpg''])], 1) \<and>
   g_save_loop ex_lib (\<lambda>u target. False) ''guardian_images'' [] 0 []
       [''https://i.guim.co.uk/img/a.jpg?s=1'']
     = Inr ([''guardian_1.jpg''], 1, [Failed ''https://i.guim.co.uk/img/a.jpg?s=1''])"
  by code_simp

section \<open>The region counters of the Guardian parser\<close>

text \<open>
  \<open>g_consider\<close> touches the result list and the set of seen URLs only. From there, every
  handler keeps the six counters at or above zero: each decrement is guarded by a test
  that the counter is not zero.
\<close>

lemma g_consider_counters:
  "g_consider L s u = Inr s' \<Longrightarrow>
     in_main s' = in_main s \<and> in_article s' = in_article s \<and> in_lightbox s' = in_lightbox s \<and>
     in_figure s' = in_figure s \<and> in_picture s' = in_picture s \<and>
     in_noscript s' = in_noscript s \<and> picture_best s' = picture_best s \<and> base s' = base s"
  by (auto simp: g_consider_def split: if_splits sum.splits)

lemma g_consider_ok: "g_consider L s u = Inr s' \<Longrightarrow> g_counters_ok s \<Longrightarrow> g_counters_ok s'"
  using g_consider_counters [of L s u s'] by (simp add: g_counters_ok_def)

lemma g_consider_all_ok:
  "g_consider_all L s us = Inr s' \<Longrightarrow> g_counters_ok s \<Longrightarrow> g_counters_ok s'"
proof (induction us arbitrary: s)
  case Nil
  then show ?case by simp
next
  case (Cons u us)
  from Cons.prems(1) obtain s1 where 1: "g_consider L s u = Inr s1"
    and 2: "g_consider_all L s1 us = Inr s'" by (auto split: sum.splits)
  from g_consider_ok [OF 1 Cons.prems(2)] Cons.IH [OF 2] show ?case by simp
qed

lemma region_open_ok: "g_counters_ok s \<Longrightarrow> g_counters_ok (region_open s tag at)"
  by (simp add: region_open_def g_counters_ok_def Let_def)

lemma region_close_ok: "g_counters_ok s \<Longrightarrow> g_counters_ok (region_close s tag)"
  by (simp add: region_close_def g_counters_ok_def Let_def)

lemma picture_update_ok: "g_counters_ok s \<Longrightarrow> g_counters_ok (picture_update s at u)"
  by (auto simp: picture_update_def g_counters_ok_def Let_def split: option.splits)

lemma style_step_ok: "style_step L s at = Inr s' \<Longrightarrow> g_counters_ok s \<Longrightarrow> g_counters_ok s'"
  by (auto simp: style_step_def split: if_splits option.splits dest: g_consider_ok)

lemma g_handle_starttag_ok:
  assumes "g_handle_starttag L s tag at = Inr s'" "g_counters_ok s"
  shows "g_counters_ok s'"
proof -
  let ?r = "region_open s tag at"
  have r: "g_counters_ok ?r" using assms(2) by (rule region_open_ok)
  show ?thesis
    using assms(1) r picture_update_ok [OF r]
    by (auto simp: g_handle_starttag_def Let_def
        split: if_splits sum.splits option.splits prod.splits
        dest: g_consider_ok style_step_ok)
qed

lemma g_handle_endtag_ok:
  assumes "g_handle_endtag L s tag = Inr s'" "g_counters_ok s"
  shows "g_counters_ok s'"
proof (cases "tag = ''picture'' \<and> in_picture s \<noteq> 0")
  case False
  with assms show ?thesis by (auto simp: g_handle_endtag_def region_close_ok)
next
  case True
  with assms(1) obtain s1 where c: "commit_picture_best L s = Inr s1"
    and s': "s' = region_close (s1\<lparr>in_picture := in_picture s1 - 1\<rparr>) tag"
    by (auto simp: g_handle_endtag_def split: sum.splits)
  from c have same: "in_main s1 = in_main s \<and> in_article s1 = in_article s \<and>
      in_lightbox s1 = in_lightbox s \<and> in_figure s1 = in_figure s \<and>
      in_picture s1 = in_picture s \<and> in_noscript s1 = in_noscript s"
    by (auto simp: commit_picture_best_def split: option.splits sum.splits prod.splits
        dest: g_consider_counters)
  with True assms(2) have "g_counters_ok (s1\<lparr>in_picture := in_picture s1 - 1\<rparr>)"
    by (simp add: g_counters_ok_def)
  then show ?thesis unfolding s' by (rule region_close_ok)
qed

lemma g_handle_ok: "g_handle L s e = Inr s' \<Longrightarrow> g_counters_ok s \<Longrightarrow> g_counters_ok s'"
  by (cases e)
    (auto simp: g_handle_data_def split: if_splits
      dest: g_handle_starttag_ok g_handle_endtag_ok g_consider_all_ok)

lemma g_feed_ok: "g_feed L s es = Inr s' \<Longrightarrow> g_counters_ok s \<Longrightarrow> g_counters_ok s'"
proof (induction es arbitrary: s)
  case Nil
  then show ?case by simp
next
  case (Cons e es)
  from Cons.prems(1) obtain s1 where 1: "g_handle L s e = Inr s1"
    and 2: "g_feed L s1 es = Inr s'" by (auto split: sum.splits)
  from g_handle_ok [OF 1 Cons.prems(2)] Cons.IH [OF 2] show ?case by simp
qed

text \<open>
  In every state the Guardian parser reaches from its initial state, whatever the
  events, no counter is negative; an end tag met with all counters at zero changes
  nothing. The stacks of the Daily Mail parser are popped under a test too.
\<close>

lemma g_reachable_counters_nonneg:
  "g_feed L (g_init b) es = Inr s \<Longrightarrow> g_counters_ok s"
  by (erule g_feed_ok) (simp add: g_init_def g_counters_ok_def)

lemma g_unmatched_end_ignored:
  "g_counters_ok s \<Longrightarrow> in_picture s = 0 \<Longrightarrow> in_noscript s = 0 \<Longrightarrow> in_figure s = 0 \<Longrightarrow>
   in_article s = 0 \<Longrightarrow> in_main s = 0 \<Longrightarrow> in_lightbox s = 0 \<Longrightarrow>
   g_handle_endtag L s tag = Inr s"
  by (simp add: g_handle_endtag_def region_close_def)

lemma dm_unmatched_end_ignored:
  "stack_in_wrap s = [] \<Longrightarrow> stack_in_wrap (dm_handle_endtag s tag) = []"
  "stack_in_picture s = [] \<Longrightarrow> stack_in_picture (dm_handle_endtag s tag) = []"
  by (simp_all add: dm_handle_endtag_def Let_def)

text \<open>
  Claim C5, at the input where the Guardian parser departs from it. The lightbox scope
  is entered by \<^verbatim>\<open><div id="gu-lightbox">\<close>, but it is left by the end tag of any \<^verbatim>\<open>div\<close>:
  the \<^verbatim>\<open></div>\<close> of a caption inside the lightbox takes the counter from 1 to 0, so the
  image that follows, still inside the lightbox, is dropped. Without the inner \<^verbatim>\<open>div\<close>
  the same kind of image is collected.
\<close>

theorem guardian_inner_div_closes_lightbox:
  "(case g_feed ex_lib (g_init ex_page) (take 2 ex_nested_lightbox) of
      Inl e \<Rightarrow> False | Inr s \<Rightarrow> in_lightbox s = 1) \<and>
   (case g_feed ex_lib (g_init ex_page) (take 3 ex_nested_lightbox) of
      Inl e \<Rightarrow> False | Inr s \<Rightarrow> in_lightbox s = 0) \<and>
   extract_guardian_images ex_lib ex_page ex_nested_lightbox = Inr [] \<and>
   extract_guardian_images ex_lib ex_page ex_lightbox_page
     = Inr [''https://i.guim.co.uk/img/a.jpg?s=1'']"
  by code_simp

section \<open>Inline styles in the Guardian parser\<close>

text \<open>
  For a start tag other than \<^verbatim>\<open>img\<close> and \<^verbatim>\<open>source\<close>, met in a figure or the lightbox,
  the URL found in its style goes through \<open>g_consider\<close>: the same join, host filter,
  rewrite and duplicate check as every other candidate.
\<close>

lemma style_url_considered:
  assumes "tag \<noteq> ''img''" "tag \<noteq> ''source''"
    and "in_figure (region_open s tag at) \<noteq> 0 \<or> in_lightbox (region_open s tag at) \<noteq> 0"
    and "attr_get at ''style'' = Some st" "style_search st = Some u"
  shows "g_handle_starttag L s tag at = g_consider L (region_open s tag at) u"
proof -
  from assms(4) have "attr_key at ''style''"
    by (auto simp: attr_get_def attr_key_def split: option.splits)
  with assms show ?thesis
    by (simp add: g_handle_starttag_def style_step_def Let_def)
qed

text \<open>
  Claim C10, at the input where the code departs from it: an \<^verbatim>\<open>img\<close> in a figure that
  has the style but no \<^verbatim>\<open>src\<close> or \<^verbatim>\<open>srcset\<close>. \<^verbatim>\<open>if not u: return\<close> leaves the handler
  before the style is read, so nothing is collected; the same style on a \<^verbatim>\<open>div\<close> in the
  same place is collected.
\<close>

theorem guardian_style_skipped_without_src:
  "extract_guardian_images ex_lib ex_page
     (ex_figure_open @ [StartTag ''img'' [(''style'', Some ex_style)], EndTag ''figure''])
     = Inr [] \<and>
   extract_guardian_images ex_lib ex_page
     (ex_figure_open @ [StartTag ''div'' [(''style'', Some ex_style)], EndTag ''figure''])
     = Inr [''https://i.guim.co.uk/img/x.jpg?s=9'']"
  by code_simp

section \<open>The picture fragment\<close>

text \<open>Below 641 digits the limit plays no part.\<close>

lemma py_int_short:
  assumes "py_int 0 s = Some v" "length s \<le> 640"
  shows "py_int lim s = Some v"
proof -
  let ?t = "strip s"
  let ?body = "if ?t \<noteq> [] \<and> (hd ?t = CHR ''-'' \<or> hd ?t = CHR ''+'') then tl ?t else ?t"
  have "length ?t \<le> length s"
    unfolding strip_def
    by (metis length_rev length_dropWhile_le le_trans)
  then have "length ?body \<le> length s" by auto
  moreover have "length (filter isdigit ?body) \<le> length ?body" by (rule length_filter_le)
  ultimately have "\<not> 640 < length (filter isdigit ?body)" using assms(2) by linarith
  with assms(1) show ?thesis by (simp add: py_int_def Let_def)
qed

lemma spec_parse_a: "spec_parse L ''a.jpg 400w'' = [(''a.jpg'', Some 400, None)]"
proof -
  have "tokens ''a.jpg 400w'' = [''a.jpg 400w'']" by code_simp
  moreover have "split_ws ''a.jpg 400w'' = [''a.jpg'', ''400w'']" by code_simp
  moreover have "endswith (lower ''400w'') ''w''" by code_simp
  moreover have "py_int lim (butlast (lower ''400w'')) = Some 400" for lim
    by (rule py_int_short) code_simp+
  ultimately show ?thesis by (simp add: spec_parse_def spec_candidate_def)
qed

lemma spec_parse_b: "spec_parse L ''b.jpg 900w'' = [(''b.jpg'', Some 900, None)]"
proof -
  have "tokens ''b.jpg 900w'' = [''b.jpg 900w'']" by code_simp
  moreover have "split_ws ''b.jpg 900w'' = [''b.jpg'', ''900w'']" by code_simp
  moreover have "endswith (lower ''900w'') ''w''" by code_simp
  moreover have "py_int lim (butlast (lower ''900w'')) = Some 900" for lim
    by (rule py_int_short) code_simp+
  ultimately show ?thesis by (simp add: spec_parse_def spec_candidate_def)
qed

lemma attrs_a: "attr_truthy [(''srcset'', Some ''a.jpg 400w'')] ''srcset'' = Some ''a.jpg 400w''"
  by code_simp

lemma cm_a: "candidate_match ''a.jpg 400w'' = Some (''a.jpg'', ''400'')" by code_simp
lemma cm_b: "candidate_match ''b.jpg 900w'' = Some (''b.jpg'', ''900'')" by code_simp
lemma ss_a: "srcset_split (strip ''a.jpg 400w'') = [''a.jpg 400w'']" by code_simp
lemma ss_b: "srcset_split (strip ''b.jpg 900w'') = [''b.jpg 900w'']" by code_simp
lemma dv: "py_int lim ''400'' = Some 400" "py_int lim ''900'' = Some 900"
  by (rule py_int_short; code_simp)+


lemma attr_single:
  "attr_truthy [(k, Some v)] k' = (if k' = k \<and> v \<noteq> [] then Some v else None)"
  "attr_get [(k, Some v)] k' = (if k' = k then Some v else None)"
  "attr_key [(k, Some v)] k' = (k' = k)"
  "attr_truthy [] k' = None" "attr_get [] k' = None" "attr_key [] k' = False"
  by (auto simp: attr_truthy_def attr_get_def attr_key_def)

lemma dm_picture_fragment:
  assumes scope: "top_or_false (stack_in_wrap s)"
    and join: "urljoin L (base_url s) ''b.jpg'' = Inr r" and ne: "r \<noteq> []"
  shows "\<exists>s'. dm_feed L s picture_fragment = Inr s' \<and> imgs s' = imgs s @ [r] \<and>
           stack_in_wrap s' = stack_in_wrap s"
proof -
  let ?cs = "[(''a.jpg'', Some 400, None), (''b.jpg'', Some 900, None), (''c.jpg'', None, None)]
      :: 'a candidate list"
  have w: "with_w ?cs = [((''a.jpg'', Some 400, None), 400), ((''b.jpg'', Some 900, None), 900)]"
    by (simp add: with_w_def List.map_filter_def)
  have pick: "pick_largest L ?cs (base_url s) = Inr (Some r)"
    using join by (simp add: pick_largest_def w py_max_def join_some_def)
  show ?thesis
    using scope ne pick
    by (simp add: picture_fragment_def dm_handle_starttag_def dm_handle_endtag_def Let_def
        lower_def lower_char_def top_or_false_def attr_single parse_srcset_spec
        spec_parse_a spec_parse_b img_candidates_def)
qed


lemma g_consider_frame:
  "g_consider L s u = Inr s'' \<Longrightarrow>
     g_consider L (s\<lparr>in_picture := n, picture_best := pb\<rparr>) u
       = Inr (s''\<lparr>in_picture := n, picture_best := pb\<rparr>)"
  by (auto simp: g_consider_def split: if_splits sum.splits)

lemma g_consider_images:
  "g_consider L s u = Inr s'' \<Longrightarrow>
     images s'' = images s \<or> (\<exists>final. final \<notin> seen s \<and> images s'' = images s @ [final])"
  by (auto simp: g_consider_def split: if_splits sum.splits)

lemma best_a:
  assumes "urljoin L b ''a.jpg'' = Inr ra"
  shows "best_from_srcset L ''a.jpg 400w'' b = Inr (Some ra)"
  using assms by (simp add: best_from_srcset_def ss_a cm_a dv)

lemma best_b:
  assumes "urljoin L b ''b.jpg'' = Inr rb"
  shows "best_from_srcset L ''b.jpg 900w'' b = Inr (Some rb)"
  using assms by (simp add: best_from_srcset_def ss_b cm_b dv)

lemma g_picture_fragment:
  assumes scope: "in_figure g \<noteq> 0 \<or> in_lightbox g \<noteq> 0" and nn: "0 \<le> in_picture g"
    and ja: "urljoin L (base g) ''a.jpg'' = Inr ra" and ne: "ra \<noteq> []"
    and jb: "urljoin L (base g) ''b.jpg'' = Inr rb"
    and cons: "g_consider L g ra = Inr g''"
  shows "g_feed L g picture_fragment
           = Inr (g''\<lparr>in_picture := in_picture g, picture_best := None\<rparr>)"
proof -
  let ?g1 = "g\<lparr>in_picture := in_picture g + 1, picture_best := None\<rparr>"
  let ?g2 = "g\<lparr>in_picture := in_picture g + 1, picture_best := Some (ra, 2)\<rparr>"
  have n1: "in_picture g + 1 \<noteq> 0" using nn by simp
  have e1: "g_handle L g (StartTag ''picture'' []) = Inr ?g1"
    using scope by (simp add: g_handle_starttag_def region_open_def style_step_def attr_single)
  have e2: "g_handle L ?g1 (StartTag ''source'' [(''srcset'', Some ''a.jpg 400w'')]) = Inr ?g2"
    using scope n1 ne best_a [OF ja]
    by (simp add: g_handle_starttag_def region_open_def style_step_def attr_single
        pick_from_attrs_def picture_update_def Let_def)
  have e3: "g_handle L ?g2 (StartTag ''source'' [(''srcset'', Some ''b.jpg 900w'')]) = Inr ?g2"
    using scope n1 best_b [OF jb]
    by (simp add: g_handle_starttag_def region_open_def style_step_def attr_single
        pick_from_attrs_def picture_update_def Let_def)
  have e4: "g_handle L ?g2 (StartTag ''img'' [(''src'', Some ''c.jpg'')]) = Inr ?g2"
    using scope n1
    by (simp add: g_handle_starttag_def region_open_def style_step_def attr_single
        pick_from_attrs_def picture_update_def Let_def)
  have c: "g_consider L ?g2 ra
      = Inr (g''\<lparr>in_picture := in_picture g + 1, picture_best := Some (ra, 2)\<rparr>)"
    using g_consider_frame [OF cons] .
  have e5: "g_handle L ?g2 (EndTag ''picture'')
      = Inr (g''\<lparr>in_picture := in_picture g, picture_best := None\<rparr>)"
    using n1 c by (simp add: g_handle_endtag_def commit_picture_best_def region_close_def)
  show ?thesis
    unfolding picture_fragment_def using e1 e2 e3 e4 e5 by simp
qed

text \<open>
  What \<open>g_consider\<close> does with a URL that is not empty, once it is joined to the base.
\<close>

lemma g_consider_result:
  assumes "url \<noteq> []" "urljoin L (base s) url = Inr j"
  shows "g_consider L s url =
     (if (startswith j ''http://'' \<or> startswith j ''https://'') \<and> keep_guardian_cdn L j
      then (case upgrade_guardian_url L j 2000 of
              Inl e \<Rightarrow> Inl e
            | Inr final \<Rightarrow>
                if final \<in> seen s then Inr s
                else Inr (s\<lparr>seen := insert final (seen s), images := images s @ [final]\<rparr>))
      else Inr s)"
  using assms by (simp add: g_consider_def split: sum.splits)

text \<open>
  Claim C2, as amended. Fed to a Daily Mail parser that is inside an \<^verbatim>\<open>image-wrap\<close>
  division, the fragment adds exactly one URL, \<^verbatim>\<open>b.jpg\<close> of the 900w candidate joined to
  the base. Fed to a Guardian parser that is inside a figure or the lightbox, the
  fragment adds at most one URL, and it comes from \<^verbatim>\<open>a.jpg\<close> of the first source: with
  \<open>ja\<close> that file joined to the base (and joined once more in \<open>g_consider\<close>), nothing is
  added when \<open>ja\<close> is no \<^verbatim>\<open>http\<close> or \<^verbatim>\<open>https\<close> URL on a host ending in \<^verbatim>\<open>i.guim.co.uk\<close>;
  else the one URL added is what \<open>upgrade_guardian_url\<close> makes of \<open>ja\<close>, unless the parser
  has seen it before.
\<close>

theorem picture_fragment_result:
  "(top_or_false (stack_in_wrap s) \<and> urljoin L (base_url s) ''b.jpg'' = Inr r \<and> r \<noteq> []
      \<longrightarrow> (\<exists>s'. dm_feed L s picture_fragment = Inr s' \<and> imgs s' = imgs s @ [r])) \<and>
   ((in_figure g \<noteq> 0 \<or> in_lightbox g \<noteq> 0) \<and> 0 \<le> in_picture g \<and>
    urljoin L (base g) ''a.jpg'' = Inr ra \<and> ra \<noteq> [] \<and>
    urljoin L (base g) ''b.jpg'' = Inr rb \<and> urljoin L (base g) ra = Inr ja
      \<longrightarrow> (\<not> ((startswith ja ''http://'' \<or> startswith ja ''https://'') \<and>
                keep_guardian_cdn L ja)
             \<longrightarrow> (\<exists>g'. g_feed L g picture_fragment = Inr g' \<and> images g' = images g)) \<and>
          ((startswith ja ''http://'' \<or> startswith ja ''https://'') \<and>
           keep_guardian_cdn L ja \<and> upgrade_guardian_url L ja 2000 = Inr final
             \<longrightarrow> (\<exists>g'. g_feed L g picture_fragment = Inr g' \<and>
                    images g' = (if final \<in> seen g then images g else images g @ [final]))))"
proof (rule conjI; rule impI)
  assume "top_or_false (stack_in_wrap s) \<and> urljoin L (base_url s) ''b.jpg'' = Inr r \<and> r \<noteq> []"
  then show "\<exists>s'. dm_feed L s picture_fragment = Inr s' \<and> imgs s' = imgs s @ [r]"
    using dm_picture_fragment [of s L r] by blast
next
  assume a: "(in_figure g \<noteq> 0 \<or> in_lightbox g \<noteq> 0) \<and> 0 \<le> in_picture g \<and>
    urljoin L (base g) ''a.jpg'' = Inr ra \<and> ra \<noteq> [] \<and>
    urljoin L (base g) ''b.jpg'' = Inr rb \<and> urljoin L (base g) ra = Inr ja"
  then have sc: "in_figure g \<noteq> 0 \<or> in_lightbox g \<noteq> 0" and nn: "0 \<le> in_picture g"
    and ja: "urljoin L (base g) ''a.jpg'' = Inr ra" and ne: "ra \<noteq> []"
    and jb: "urljoin L (base g) ''b.jpg'' = Inr rb" and jj: "urljoin L (base g) ra = Inr ja"
    by simp_all
  note cr = g_consider_result [OF ne jj]
  note pf = g_picture_fragment [OF sc nn ja ne jb]
  define ok where "ok \<longleftrightarrow>
    (startswith ja ''http://'' \<or> startswith ja ''https://'') \<and> keep_guardian_cdn L ja"
  have cr': "g_consider L g ra =
     (if ok
      then (case upgrade_guardian_url L ja 2000 of
              Inl e \<Rightarrow> Inl e
            | Inr final \<Rightarrow>
                if final \<in> seen g then Inr g
                else Inr (g\<lparr>seen := insert final (seen g), images := images g @ [final]\<rparr>))
      else Inr g)"
    unfolding ok_def by (rule cr)
  have out: "\<exists>g'. g_feed L g picture_fragment = Inr g' \<and> images g' = images g" if "\<not> ok"
  proof -
    from that have "g_consider L g ra = Inr g" unfolding cr' by simp
    from pf [OF this] show ?thesis by simp
  qed
  have inn: "\<exists>g'. g_feed L g picture_fragment = Inr g' \<and>
      images g' = (if final \<in> seen g then images g else images g @ [final])"
    if "ok" "upgrade_guardian_url L ja 2000 = Inr final"
  proof (cases "final \<in> seen g")
    case True
    with that have "g_consider L g ra = Inr g" unfolding cr' by simp
    from pf [OF this] True show ?thesis by simp
  next
    case False
    with that have "g_consider L g ra
        = Inr (g\<lparr>seen := insert final (seen g), images := images g @ [final]\<rparr>)"
      unfolding cr' by simp
    from pf [OF this] False show ?thesis by simp
  qed
  show "(\<not> ((startswith ja ''http://'' \<or> startswith ja ''https://'') \<and>
                keep_guardian_cdn L ja)
             \<longrightarrow> (\<exists>g'. g_feed L g picture_fragment = Inr g' \<and> images g' = images g)) \<and>
          ((startswith ja ''http://'' \<or> startswith ja ''https://'') \<and>
           keep_guardian_cdn L ja \<and> upgrade_guardian_url L ja 2000 = Inr final
             \<longrightarrow> (\<exists>g'. g_feed L g picture_fragment = Inr g' \<and>
                    images g' = (if final \<in> seen g then images g else images g @ [final])))"
    using out inn unfolding ok_def by blast
qed

text \<open>
  The theorem of C2 for a Daily Mail page, for a Guardian parser whose base is on the
  image host, where the rewrite adds \<^verbatim>\<open>width=2000\<close> and \<^verbatim>\<open>dpr=2\<close> to the URL of \<^verbatim>\<open>a.jpg\<close>,
  and for a Guardian parser on a page of the Guardian, where nothing is added.
\<close>

theorem picture_fragment_result_witness:
  "top_or_false (stack_in_wrap ex_dm_in_wrap) \<and>
   urljoin ex_lib (base_url ex_dm_in_wrap) ''b.jpg''
     = Inr ''https://www.dailymail.co.uk/news/article-1/b.jpg'' \<and>
   (\<exists>s'. dm_feed ex_lib ex_dm_in_wrap picture_fragment = Inr s' \<and>
      imgs s' = [''https://www.dailymail.co.uk/news/article-1/b.jpg'']) \<and>
   in_figure ex_g_in_figure = 1 \<and>
   0 \<le> in_picture ex_g_in_figure \<and>
   urljoin ex_lib (base ex_g_in_figure) ''a.jpg'' = Inr ''https://i.guim.co.uk/img/media/a.jpg'' \<and>
   urljoin ex_lib (base ex_g_in_figure) ''b.jpg'' = Inr ''https://i.guim.co.uk/img/media/b.jpg'' \<and>
   urljoin ex_lib (base ex_g_in_figure) ''https://i.guim.co.uk/img/media/a.jpg''
     = Inr ''https://i.guim.co.uk/img/media/a.jpg'' \<and>
   startswith ''https://i.guim.co.uk/img/media/a.jpg'' ''https://'' \<and>
   keep_guardian_cdn ex_lib ''https://i.guim.co.uk/img/media/a.jpg'' \<and>
   upgrade_guardian_url ex_lib ''https://i.guim.co.uk/img/media/a.jpg'' 2000
     = Inr ''https://i.guim.co.uk/img/media/a.jpg?width=2000&dpr=2'' \<and>
   (\<exists>g'. g_feed ex_lib ex_g_in_figure picture_fragment = Inr g' \<and>
      images g' = [''https://i.guim.co.uk/img/media/a.jpg?width=2000&dpr=2'']) \<and>
   urljoin ex_lib ex_page ''a.jpg'' = Inr ''https://www.theguardian.com/world/2024/jan/01/a.jpg'' \<and>
   keep_guardian_cdn ex_lib ''https://www.theguardian.com/world/2024/jan/01/a.jpg'' = False \<and>
   (\<exists>g'. g_feed ex_lib ex_g_in_page_figure picture_fragment = Inr g' \<and> images g' = [])"
proof -
  let ?a = "''https://i.guim.co.uk/img/media/a.jpg''"
  let ?pa = "''https://www.theguardian.com/world/2024/jan/01/a.jpg''"
  let ?pb = "''https://www.theguardian.com/world/2024/jan/01/b.jpg''"
  have d1: "top_or_false (stack_in_wrap ex_dm_in_wrap)" by code_simp
  have d2: "urljoin ex_lib (base_url ex_dm_in_wrap) ''b.jpg''
     = Inr ''https://www.dailymail.co.uk/news/article-1/b.jpg''" by code_simp
  have d3: "imgs ex_dm_in_wrap = []" by code_simp
  have g0: "in_figure ex_g_in_figure = 1" by code_simp
  then have g1: "in_figure ex_g_in_figure \<noteq> 0 \<or> in_lightbox ex_g_in_figure \<noteq> 0" by simp
  have g2: "0 \<le> in_picture ex_g_in_figure" by code_simp
  have g3: "urljoin ex_lib (base ex_g_in_figure) ''a.jpg'' = Inr ?a" by code_simp
  have g4: "urljoin ex_lib (base ex_g_in_figure) ''b.jpg''
     = Inr ''https://i.guim.co.uk/img/media/b.jpg''" by code_simp
  have g5: "urljoin ex_lib (base ex_g_in_figure) ?a = Inr ?a" by code_simp
  have g6: "startswith ?a ''https://''" by code_simp
  have g7: "keep_guardian_cdn ex_lib ?a" by code_simp
  have g8: "upgrade_guardian_url ex_lib ?a 2000
     = Inr ''https://i.guim.co.uk/img/media/a.jpg?width=2000&dpr=2''" by code_simp
  have g9: "seen ex_g_in_figure = {}" "images ex_g_in_figure = []"
    by (simp_all add: ex_g_in_figure_def g_init_def)
  have p0: "in_figure ex_g_in_page_figure \<noteq> 0 \<or> in_lightbox ex_g_in_page_figure \<noteq> 0"
    by (simp add: ex_g_in_page_figure_def g_init_def)
  have p2: "0 \<le> in_picture ex_g_in_page_figure" by (simp add: ex_g_in_page_figure_def g_init_def)
  have pbase: "base ex_g_in_page_figure = ex_page" by (simp add: ex_g_in_page_figure_def g_init_def)
  have p3: "urljoin ex_lib ex_page ''a.jpg'' = Inr ?pa" by code_simp
  have p4: "urljoin ex_lib ex_page ''b.jpg'' = Inr ?pb" by code_simp
  have p5: "urljoin ex_lib ex_page ?pa = Inr ?pa" by code_simp
  have p6: "keep_guardian_cdn ex_lib ?pa = False" by code_simp
  have p7: "images ex_g_in_page_figure = []" by (simp add: ex_g_in_page_figure_def g_init_def)
  note t1 = picture_fragment_result [where L = ex_lib and s = ex_dm_in_wrap
      and r = "''https://www.dailymail.co.uk/news/article-1/b.jpg''", THEN conjunct1]
  have "\<exists>s'. dm_feed ex_lib ex_dm_in_wrap picture_fragment = Inr s' \<and>
      imgs s' = imgs ex_dm_in_wrap @ [''https://www.dailymail.co.uk/news/article-1/b.jpg'']"
    using t1 d1 d2 by simp
  then have a: "\<exists>s'. dm_feed ex_lib ex_dm_in_wrap picture_fragment = Inr s' \<and>
      imgs s' = [''https://www.dailymail.co.uk/news/article-1/b.jpg'']"
    unfolding d3 by simp
  note t2 = picture_fragment_result [where L = ex_lib and g = ex_g_in_figure
      and ra = ?a and rb = "''https://i.guim.co.uk/img/media/b.jpg''" and ja = ?a
      and final = "''https://i.guim.co.uk/img/media/a.jpg?width=2000&dpr=2''",
      THEN conjunct2, rule_format, THEN conjunct2, rule_format]
  have "\<exists>g'. g_feed ex_lib ex_g_in_figure picture_fragment = Inr g' \<and>
      images g' = (if ''https://i.guim.co.uk/img/media/a.jpg?width=2000&dpr=2'' \<in> seen ex_g_in_figure
                   then images ex_g_in_figure
                   else images ex_g_in_figure @ [''https://i.guim.co.uk/img/media/a.jpg?width=2000&dpr=2''])"
    using g1 g2 g3 g4 g5 g6 g7 g8 by (intro t2) simp_all
  then have b: "\<exists>g'. g_feed ex_lib ex_g_in_figure picture_fragment = Inr g' \<and>
      images g' = [''https://i.guim.co.uk/img/media/a.jpg?width=2000&dpr=2'']"
    unfolding g9 by simp
  note t3 = picture_fragment_result [where L = ex_lib and g = ex_g_in_page_figure
      and ra = ?pa and rb = ?pb and ja = ?pa,
      THEN conjunct2, rule_format, THEN conjunct1, rule_format]
  have "\<exists>g'. g_feed ex_lib ex_g_in_page_figure picture_fragment = Inr g' \<and>
      images g' = images ex_g_in_page_figure"
    using p0 p2 p3 p4 p5 p6 by (intro t3) (simp_all add: pbase)
  then have c: "\<exists>g'. g_feed ex_lib ex_g_in_page_figure picture_fragment = Inr g' \<and> images g' = []"
    unfolding p7 .
  from d1 d2 a g0 g2 g3 g4 g5 g6 g7 g8 b p3 p6 c show ?thesis by blast
qed

text \<open>
  Claim C2 as stated fails for the Guardian parser. On a page of the Guardian the
  fragment gives no URL at all: \<^verbatim>\<open>a.jpg\<close> joined to the page is not on
  \<^verbatim>\<open>i.guim.co.uk\<close>. With absolute addresses on that host it gives the 400w URL of the
  first source, not the 900w one.
\<close>

theorem guardian_picture_keeps_first_source:
  "extract_guardian_images ex_lib ex_page (ex_figure_open @ picture_fragment) = Inr [] \<and>
   extract_guardian_images ex_lib ex_page (ex_figure_open @ ex_cdn_picture)
     = Inr [''https://i.guim.co.uk/img/a.jpg?s=1'']"
  by code_simp

section \<open>Images inside and outside the region\<close>

text \<open>
  The stack of the Daily Mail parser holds, for each open division, whether it or a
  division around it is a wrapper; so its top says whether some open division is one.
\<close>

lemma inherited_length [simp]: "length (inherited acc ds) = length ds"
  by (induction ds arbitrary: acc) auto

lemma inherited_Nil [simp]: "inherited acc ds = [] \<longleftrightarrow> ds = []"
  by (cases ds) auto


















section \<open>File names\<close>

lemma endswith_iff: "endswith s suf \<longleftrightarrow> (\<exists>a. s = a @ suf)"
proof
  assume "endswith s suf"
  then have "s = take (length s - length suf) s @ suf"
    by (simp add: endswith_def) (metis append_take_drop_id)
  then show "\<exists>a. s = a @ suf" ..
next
  assume "\<exists>a. s = a @ suf"
  then show "endswith s suf" by (auto simp: endswith_def)
qed

lemma lower_char_dot: "lower_char c = CHR ''.'' \<longleftrightarrow> c = CHR ''.''"
proof
  assume a: "lower_char c = CHR ''.''"
  show "c = CHR ''.''"
  proof (rule ccontr)
    assume n: "c \<noteq> CHR ''.''"
    let ?n = "of_char c :: nat"
    from a n have up: "(65 \<le> ?n \<and> ?n \<le> 90) \<or> (192 \<le> ?n \<and> ?n \<le> 222 \<and> ?n \<noteq> 215)"
      and eq: "char_of (?n + 32) = CHR ''.''"
      by (auto simp: lower_char_def Let_def split: if_splits)
    from eq have "(of_char (char_of (?n + 32) :: char) :: nat) = of_char (CHR ''.'')" by simp
    then have "(?n + 32) mod 256 = 46" by simp
    with up show False by auto
  qed
next
  assume "c = CHR ''.''"
  then show "lower_char c = CHR ''.''" by (simp add: lower_char_def)
qed

lemma lower_simps:
  "lower (a @ b) = lower a @ lower b" "length (lower a) = length a"
  "lower (rev a) = rev (lower a)" "lower (c # a) = lower_char c # lower a" "lower [] = []"
  by (simp_all add: lower_def rev_map)

lemma lower_no_dot: "CHR ''.'' \<in> set (lower x) \<longleftrightarrow> CHR ''.'' \<in> set x"
proof -
  have "CHR ''.'' \<in> lower_char ` set x \<longleftrightarrow> (\<exists>c \<in> set x. lower_char c = CHR ''.'')"
    by (metis (no_types) imageE image_eqI)
  then show ?thesis by (simp add: lower_def lower_char_dot)
qed

lemma takeWhile_lower:
  "takeWhile (\<lambda>c. c \<noteq> CHR ''.'') (map lower_char xs)
     = map lower_char (takeWhile (\<lambda>c. c \<noteq> CHR ''.'') xs)"
  by (induction xs) (auto simp: lower_char_dot)

lemma takeWhile_to_dot:
  "CHR ''.'' \<notin> set e \<Longrightarrow> takeWhile (\<lambda>c. c \<noteq> CHR ''.'') (e @ CHR ''.'' # r) = e"
  by (induction e) auto

lemma last_suffix_lower: "last_suffix (lower x) = lower (last_suffix x)"
  using takeWhile_lower [of "rev x"] by (simp add: last_suffix_def lower_def rev_map)

text \<open>A suffix that starts at a dot and has no other dot is the text from the last dot.\<close>

lemma endswith_last_suffix:
  assumes "CHR ''.'' \<notin> set e"
  shows "endswith x (CHR ''.'' # e) \<longleftrightarrow> CHR ''.'' \<in> set x \<and> last_suffix x = e"
proof
  assume "endswith x (CHR ''.'' # e)"
  then obtain a where x: "x = a @ CHR ''.'' # e" by (auto simp: endswith_iff)
  then have "rev x = rev e @ CHR ''.'' # rev a" by simp
  with assms have "takeWhile (\<lambda>c. c \<noteq> CHR ''.'') (rev x) = rev e"
    by (simp add: takeWhile_to_dot)
  with x show "CHR ''.'' \<in> set x \<and> last_suffix x = e" by (simp add: last_suffix_def)
next
  assume a: "CHR ''.'' \<in> set x \<and> last_suffix x = e"
  let ?P = "\<lambda>c. c \<noteq> CHR ''.''"
  from a have "dropWhile ?P (rev x) \<noteq> []" by auto
  moreover have "\<not> ?P (hd (dropWhile ?P (rev x)))" using calculation by (rule hd_dropWhile)
  ultimately obtain r where d: "dropWhile ?P (rev x) = CHR ''.'' # r"
    by (cases "dropWhile ?P (rev x)") auto
  have "rev x = takeWhile ?P (rev x) @ dropWhile ?P (rev x)" by simp
  with d a have "rev x = rev e @ CHR ''.'' # r" by (simp add: last_suffix_def rev_swap)
  then have "x = rev r @ CHR ''.'' # e" by (simp add: rev_swap)
  then show "endswith x (CHR ''.'' # e)" by (auto simp: endswith_iff)
qed

lemma endswith_lower_suffix:
  assumes "CHR ''.'' \<notin> set e"
  shows "endswith (lower x) (CHR ''.'' # e) \<longleftrightarrow>
           CHR ''.'' \<in> set x \<and> lower (last_suffix x) = e"
  using endswith_last_suffix [OF assms, of "lower x"]
  by (simp add: lower_no_dot last_suffix_lower)


lemma last_suffix_Cons:
  "CHR ''.'' \<in> set cs \<Longrightarrow> last_suffix (c # cs) = last_suffix cs"
  "CHR ''.'' \<notin> set cs \<Longrightarrow> last_suffix (CHR ''.'' # cs) = cs"
proof -
  show "last_suffix (c # cs) = last_suffix cs" if "CHR ''.'' \<in> set cs"
    using that by (simp add: last_suffix_def)
  show "last_suffix (CHR ''.'' # cs) = cs" if "CHR ''.'' \<notin> set cs"
    using that takeWhile_to_dot [of "rev cs" "[]"] by (simp add: last_suffix_def)
qed

lemma known_no_dot:
  "e \<in> set dm_known \<Longrightarrow> CHR ''.'' \<notin> set e"
  "e \<in> set g_known \<Longrightarrow> CHR ''.'' \<notin> set e"
  by (auto simp: dm_known_def g_known_def)

lemma find_eq_value: "find (\<lambda>e. v = e) xs = (if v \<in> set xs then Some v else None)"
  by (induction xs) auto

text \<open>
  On a text without \<^verbatim>\<open>?\<close> and newline the pattern of the Daily Mail script matches at a
  position exactly when a dot stands there and the rest, in lower case, is one of the
  four extensions.
\<close>

lemma img_ext_at_clean:
  assumes "CHR ''?'' \<notin> set r" "CHR 0x0A \<notin> set r"
  shows "img_ext_at (c # r)
           = (if c = CHR ''.'' \<and> lower r \<in> set dm_known then Some r else None)"
proof -
  have Q: "(startswith (lower r) e \<and> end_or_query (drop (length e) r)) \<longleftrightarrow> lower r = e" for e
  proof
    assume a: "startswith (lower r) e \<and> end_or_query (drop (length e) r)"
    have "set (drop (length e) r) \<subseteq> set r" by (rule set_drop_subset)
    with assms have "CHR ''?'' \<notin> set (drop (length e) r)" "CHR 0x0A \<notin> set (drop (length e) r)"
      by auto
    with a have "drop (length e) r = []"
      by (cases "drop (length e) r") (auto simp: end_or_query_def)
    then have "length (lower r) \<le> length e" by (simp add: lower_simps)
    with a show "lower r = e" by (simp add: startswith_def)
  next
    assume "lower r = e"
    then have "length r = length e" "take (length e) (lower r) = e"
      using lower_simps(2) [of r] by auto
    then show "startswith (lower r) e \<and> end_or_query (drop (length e) r)"
      by (simp add: startswith_def end_or_query_def)
  qed
  have t: "take (length (lower r)) r = r" by (simp add: lower_simps)
  have "find (\<lambda>e. startswith (lower r) e \<and> end_or_query (drop (length e) r))
          [''jpg'', ''jpeg'', ''png'', ''webp'']
      = (if lower r \<in> set dm_known then Some (lower r) else None)"
    unfolding Q dm_known_def by (rule find_eq_value)
  then show ?thesis by (simp add: img_ext_at_def t)
qed

lemma img_ext_search_clean:
  assumes "CHR ''?'' \<notin> set name" "CHR 0x0A \<notin> set name"
  shows "img_ext_search name
           = (if CHR ''.'' \<in> set name \<and> lower (last_suffix name) \<in> set dm_known
              then Some (last_suffix name) else None)"
  using assms
proof (induction name)
  case Nil
  then show ?case by simp
next
  case (Cons c cs)
  then have clean: "CHR ''?'' \<notin> set cs" "CHR 0x0A \<notin> set cs" by auto
  note at = img_ext_at_clean [OF clean]
  note IH = Cons.IH [OF clean]
  show ?case
  proof (cases "c = CHR ''.'' \<and> lower cs \<in> set dm_known")
    case True
    then have "CHR ''.'' \<notin> set (lower cs)" using known_no_dot(1) by blast
    then have nd: "CHR ''.'' \<notin> set cs" by (simp add: lower_no_dot)
    from True nd show ?thesis by (simp add: at last_suffix_Cons(2))
  next
    case False
    show ?thesis
    proof (cases "CHR ''.'' \<in> set cs")
      case True
      with False show ?thesis by (auto simp: at IH last_suffix_Cons(1))
    next
      case nd: False
      show ?thesis
      proof (cases "c = CHR ''.''")
        case True
        with False nd show ?thesis by (auto simp: at IH last_suffix_Cons(2))
      next
        case False
        with nd show ?thesis by (auto simp: at IH)
      qed
    qed
  qed
qed

lemma find_the_value:
  "find (\<lambda>e. C \<and> v = e) xs = (if C \<and> v \<in> set xs then Some v else None)"
  by (induction xs) auto

lemma spec_ext_suffix:
  assumes "\<forall>e \<in> set known. CHR ''.'' \<notin> set e"
  shows "spec_ext known norm name
           = (if CHR ''.'' \<in> set name \<and> lower (last_suffix name) \<in> set known
              then CHR ''.'' # norm (lower (last_suffix name)) else ''.jpg'')"
proof -
  have "find (\<lambda>e. endswith (lower name) (CHR ''.'' # e)) known
      = find (\<lambda>e. CHR ''.'' \<in> set name \<and> lower (last_suffix name) = e) known"
    using assms by (intro find_cong) (auto simp: endswith_lower_suffix)
  then show ?thesis by (simp add: spec_ext_def find_the_value)
qed

lemma ext_from_url_spec:
  assumes "urlparse L u = Inr p"
    and "CHR ''?'' \<notin> set (basename (path p))" "CHR 0x0A \<notin> set (basename (path p))"
  shows "ext_from_url L u = Inr (spec_ext dm_known dm_norm (basename (path p)))"
proof -
  have k: "\<forall>e \<in> set dm_known. CHR ''.'' \<notin> set e" using known_no_dot(1) by blast
  show ?thesis
    using assms(1)
    by (auto simp: ext_from_url_def Let_def img_ext_search_clean [OF assms(2,3)]
        spec_ext_suffix [OF k] dm_norm_def)
qed

lemma take_prefix_len: "length a = k \<Longrightarrow> take k (a @ b) = a"
  by simp

lemma splitext_core:
  fixes n dots m :: string
  assumes n: "n = dots @ m"
    and dots: "\<forall>c \<in> set dots. c = CHR ''.''"
    and hd: "m = [] \<or> hd m \<noteq> CHR ''.''"
  shows "(if length (last_suffix n) < length n \<and>
             list_ex (\<lambda>c. c \<noteq> CHR ''.'') (take (length n - length (last_suffix n) - 1) n)
          then CHR ''.'' # last_suffix n else [])
         = (if CHR ''.'' \<in> set m then CHR ''.'' # last_suffix m else [])"
proof (cases "CHR ''.'' \<in> set m")
  case True
  define s where "s = last_suffix m"
  have sd: "CHR ''.'' \<notin> set s" by (auto simp: s_def last_suffix_def dest: set_takeWhileD)
  from True have "endswith m (CHR ''.'' # s)" using endswith_last_suffix [OF sd] by (simp add: s_def)
  then obtain a where m: "m = a @ CHR ''.'' # s" by (auto simp: endswith_iff)
  from True hd have "hd m \<noteq> CHR ''.''" by auto
  with m have a: "a \<noteq> []" "hd a \<noteq> CHR ''.''" by (cases a; simp)+
  have n': "n = (dots @ a) @ CHR ''.'' # s" using n m by simp
  then have "endswith n (CHR ''.'' # s)" unfolding endswith_iff by blast
  then have ls: "last_suffix n = s" using endswith_last_suffix [OF sd] by simp
  have l: "length n - length s - 1 = length (dots @ a)" unfolding n' by simp
  have stem: "take (length n - length s - 1) n = dots @ a"
    unfolding l by (subst n') (rule take_prefix_len, simp)
  have "hd a \<in> set a" using a(1) by simp
  with a(2) have ex: "list_ex (\<lambda>c. c \<noteq> CHR ''.'') (dots @ a)" by (auto simp: list_ex_iff)
  have lt: "length s < length n" unfolding n' by simp
  have cond: "length (last_suffix n) < length n \<and>
      list_ex (\<lambda>c. c \<noteq> CHR ''.'') (take (length n - length (last_suffix n) - 1) n)"
    unfolding ls stem using lt ex by blast
  show ?thesis by (subst if_P [OF cond], subst if_P [OF True]) (simp add: ls s_def)
next
  case False
  show ?thesis
  proof (cases "dots = []")
    case True
    with n False have "CHR ''.'' \<notin> set n" by simp
    then have tw: "takeWhile (\<lambda>c. c \<noteq> CHR ''.'') (rev n) = rev n" by auto
    have "last_suffix n = n" unfolding last_suffix_def tw by simp
    with False show ?thesis by simp
  next
    case dne: False
    then obtain d0 c where d0: "dots = d0 @ [c]" by (cases dots rule: rev_cases) auto
    with dots have c: "c = CHR ''.''" and d0dots: "\<forall>c \<in> set d0. c = CHR ''.''" by auto
    have n': "n = d0 @ CHR ''.'' # m" using n d0 c by simp
    then have "endswith n (CHR ''.'' # m)" unfolding endswith_iff by blast
    then have ls: "last_suffix n = m" using endswith_last_suffix [OF False] by simp
    have l: "length n - length m - 1 = length d0" unfolding n' by simp
    have stem: "take (length n - length m - 1) n = d0"
      unfolding l by (subst n') (rule take_prefix_len, simp)
    have "\<not> list_ex (\<lambda>c. c \<noteq> CHR ''.'') d0" using d0dots by (auto simp: list_ex_iff)
    then have ncond: "\<not> (length (last_suffix n) < length n \<and>
      list_ex (\<lambda>c. c \<noteq> CHR ''.'') (take (length n - length (last_suffix n) - 1) n))"
      unfolding ls stem by blast
    show ?thesis by (subst if_not_P [OF ncond], subst if_not_P [OF False]) (rule refl)
  qed
qed

text \<open>
  \<^verbatim>\<open>splitext\<close> skips the dots at the head of the file name; behind them, the extension
  is the text from the last dot.
\<close>

lemma splitext_ext_suffix:
  "splitext_ext p =
     (if CHR ''.'' \<in> set (dropWhile (\<lambda>c. c = CHR ''.'') (basename p))
      then CHR ''.'' # last_suffix (dropWhile (\<lambda>c. c = CHR ''.'') (basename p)) else [])"
proof -
  let ?dot = "\<lambda>c. c = CHR ''.''"
  have 1: "basename p = takeWhile ?dot (basename p) @ dropWhile ?dot (basename p)" by simp
  have 2: "\<forall>c \<in> set (takeWhile ?dot (basename p)). c = CHR ''.''" by (auto dest: set_takeWhileD)
  have 3: "dropWhile ?dot (basename p) = [] \<or> hd (dropWhile ?dot (basename p)) \<noteq> CHR ''.''"
    using hd_dropWhile [of ?dot "basename p"] by blast
  have len: "length (takeWhile (\<lambda>c. c \<noteq> CHR ''.'') (rev (basename p)))
      = length (last_suffix (basename p))" by (simp add: last_suffix_def)
  have e: "rev (takeWhile (\<lambda>c. c \<noteq> CHR ''.'') (rev (basename p))) = last_suffix (basename p)"
    by (simp add: last_suffix_def)
  show ?thesis
    unfolding splitext_ext_def Let_def len e by (rule splitext_core [OF 1 2 3])
qed

lemma IMG_EXTS_known: "x \<in> set IMG_EXTS \<longleftrightarrow> (\<exists>k \<in> set g_known. x = CHR ''.'' # k)"
  by (auto simp: IMG_EXTS_def g_known_def)


lemma safe_ext_spec:
  assumes "urlparse L u = Inr p"
  shows "safe_ext L u
           = Inr (spec_ext g_known id (dropWhile (\<lambda>c. c = CHR ''.'') (basename (path p))))"
proof -
  define m where "m = dropWhile (\<lambda>c. c = CHR ''.'') (basename (path p))"
  have k: "\<forall>e \<in> set g_known. CHR ''.'' \<notin> set e" using known_no_dot(2) by blast
  have sp: "splitext_ext (path p) = (if CHR ''.'' \<in> set m then CHR ''.'' # last_suffix m else [])"
    unfolding m_def by (rule splitext_ext_suffix)
  have ld: "lower_char (CHR ''.'') = CHR ''.''" by (simp add: lower_char_dot)
  have "safe_ext L u = Inr (spec_ext g_known id m)"
  proof (cases "CHR ''.'' \<in> set m")
    case True
    then have "lower (splitext_ext (path p)) = CHR ''.'' # lower (last_suffix m)"
      by (simp add: sp lower_simps ld)
    with True assms show ?thesis
      by (simp add: safe_ext_def Let_def spec_ext_suffix [OF k] IMG_EXTS_known)
  next
    case False
    then have "lower (splitext_ext (path p)) = []" by (simp add: sp lower_simps)
    with False assms show ?thesis
      by (simp add: safe_ext_def Let_def spec_ext_suffix [OF k] IMG_EXTS_known)
  qed
  then show ?thesis by (simp add: m_def)
qed

text \<open>
  Claim C9, as amended. In the Daily Mail script the extension of a URL is the
  specification's rule with the known extensions jpg, jpeg, png and webp, jpeg becoming
  jpg, applied to the last component of the path (which holds no \<^verbatim>\<open>?\<close> and no newline);
  a gif is saved as \<^verbatim>\<open>.jpg\<close>. In the Guardian script it is the rule with jpg, jpeg,
  png, webp and gif, each kept as it is, applied to the last component without its
  leading dots. The saved file is named \<^verbatim>\<open>dailymail_\<close> or \<^verbatim>\<open>guardian_\<close>, then the counter,
  then that extension.
\<close>

theorem file_names:
  "(urlparse L u = Inr p \<and> CHR ''?'' \<notin> set (basename (path p)) \<and>
    CHR 0x0A \<notin> set (basename (path p))
      \<longrightarrow> ext_from_url L u = Inr (spec_ext dm_known dm_norm (basename (path p)))) \<and>
   (urlparse L u = Inr p
      \<longrightarrow> safe_ext L u
            = Inr (spec_ext g_known id
                     (dropWhile (\<lambda>c. c = CHR ''.'') (basename (path p))))) \<and>
   (ext_from_url L u = Inr ext \<and>
    retrieve u (path_join outdir (''dailymail_'' @ str_int idx @ ext))
      \<longrightarrow> download_images_sequential L retrieve [u] outdir idx
            = Inr ([''dailymail_'' @ str_int idx @ ext], idx + 1, [])) \<and>
   (safe_ext L u = Inr ext
      \<longrightarrow> (\<exists>line. save_image L retrieve outdir u idx
                     = Inr (''guardian_'' @ str_int idx @ ext, line)))"
proof (intro conjI impI)
  show "ext_from_url L u = Inr (spec_ext dm_known dm_norm (basename (path p)))"
    if "urlparse L u = Inr p \<and> CHR ''?'' \<notin> set (basename (path p)) \<and>
        CHR 0x0A \<notin> set (basename (path p))"
    using that ext_from_url_spec [of L u p] by blast
  show "safe_ext L u
      = Inr (spec_ext g_known id (dropWhile (\<lambda>c. c = CHR ''.'') (basename (path p))))"
    if "urlparse L u = Inr p"
    using that by (rule safe_ext_spec)
  show "download_images_sequential L retrieve [u] outdir idx
      = Inr ([''dailymail_'' @ str_int idx @ ext], idx + 1, [])"
    if "ext_from_url L u = Inr ext \<and>
        retrieve u (path_join outdir (''dailymail_'' @ str_int idx @ ext))"
    using that by (simp add: download_images_sequential_def Let_def)
  show "\<exists>line. save_image L retrieve outdir u idx
      = Inr (''guardian_'' @ str_int idx @ ext, line)"
    if "safe_ext L u = Inr ext"
    using that by (simp add: save_image_def Let_def)
qed

text \<open>
  The theorem of C9 at a URL that ends in \<^verbatim>\<open>.JPEG\<close>, with the counter at 7: the Daily
  Mail script writes \<^verbatim>\<open>dailymail_7.jpg\<close>, the Guardian script \<^verbatim>\<open>guardian_7.jpeg\<close>.
\<close>

theorem file_names_witness:
  "(\<exists>p. urlparse ex_lib ex_photo = Inr p \<and> CHR ''?'' \<notin> set (basename (path p)) \<and>
        CHR 0x0A \<notin> set (basename (path p)) \<and> basename (path p) = ''photo-a-12.JPEG'') \<and>
   ext_from_url ex_lib ex_photo = Inr ''.jpg'' \<and>
   safe_ext ex_lib ex_photo = Inr ''.jpeg'' \<and>
   download_images_sequential ex_lib (\<lambda>u target. True) [ex_photo] ''dailymail_images'' 7
     = Inr ([''dailymail_7.jpg''], 8, []) \<and>
   (\<exists>line. save_image ex_lib (\<lambda>u target. True) ''guardian_images'' ex_photo 7
     = Inr (''guardian_7.jpeg'', line))"
proof -
  let ?p = "\<lparr> scheme = ''https'', netloc = ''i.dailymail.co.uk'',
     path = ''/1s/2024/01/01/12/photo-a-12.JPEG'', params = [], query = [], fragment = [] \<rparr>"
  have u: "urlparse ex_lib ex_photo = Inr ?p" by code_simp
  have b: "basename (path ?p) = ''photo-a-12.JPEG''" by code_simp
  have c: "CHR ''?'' \<notin> set (basename (path ?p)) \<and> CHR 0x0A \<notin> set (basename (path ?p))"
    by code_simp
  have s1: "spec_ext dm_known dm_norm ''photo-a-12.JPEG'' = ''.jpg''" by code_simp
  have s2: "spec_ext g_known id (dropWhile (\<lambda>c. c = CHR ''.'') ''photo-a-12.JPEG'') = ''.jpeg''"
    by code_simp
  have s7: "''dailymail_'' @ str_int 7 @ ''.jpg'' = ''dailymail_7.jpg''"
    "''guardian_'' @ str_int 7 @ ''.jpeg'' = ''guardian_7.jpeg''" by code_simp+
  note t = file_names [where L = ex_lib and u = ex_photo and p = ?p and idx = 7
      and retrieve = "\<lambda>u target. True"]
  from t [THEN conjunct1] u b c s1
  have e1: "ext_from_url ex_lib ex_photo = Inr ''.jpg''" by simp
  from t [THEN conjunct2, THEN conjunct1] u b s2
  have e2: "safe_ext ex_lib ex_photo = Inr ''.jpeg''" by simp
  from t [where ext = "''.jpg''" and outdir = "''dailymail_images''",
      THEN conjunct2, THEN conjunct2, THEN conjunct1] e1 s7
  have e3: "download_images_sequential ex_lib (\<lambda>u target. True) [ex_photo] ''dailymail_images'' 7
     = Inr ([''dailymail_7.jpg''], 8, [])" by simp
  from t [where ext = "''.jpeg''" and outdir = "''guardian_images''",
      THEN conjunct2, THEN conjunct2, THEN conjunct2] e2 s7
  have e4: "\<exists>line. save_image ex_lib (\<lambda>u target. True) ''guardian_images'' ex_photo 7
     = Inr (''guardian_7.jpeg'', line)" by simp
  from u b c e1 e2 e3 e4 show ?thesis by blast
qed

text \<open>
  Claim C9 as stated fails in both scripts, against the rule with the five extensions
  and jpeg mapped to jpg: the Daily Mail script saves a \<^verbatim>\<open>.gif\<close> as \<^verbatim>\<open>.jpg\<close>, and the
  Guardian script saves a \<^verbatim>\<open>.jpeg\<close> as \<^verbatim>\<open>.jpeg\<close>.
\<close>

theorem extension_tables_differ:
  "download_images_sequential ex_lib (\<lambda>u target. True)
     [''https://i.dailymail.co.uk/1s/2024/01/01/12/anim.gif''] ''dailymail_images'' 1
     = Inr ([''dailymail_1.jpg''], 2, []) \<and>
   spec_ext g_known dm_norm ''anim.gif'' = ''.gif'' \<and>
   g_save_loop ex_lib (\<lambda>u target. True) ''guardian_images'' [] 0 []
     [''https://i.guim.co.uk/img/media/photo.jpeg?width=300&s=0f3a9c'']
     = Inr ([''guardian_1.jpeg''], 1,
            [Saved ''guardian_1.jpeg''
               ''https://i.guim.co.uk/img/media/photo.jpeg?width=300&s=0f3a9c'']) \<and>
   spec_ext g_known dm_norm ''photo.jpeg'' = ''.jpg''"
  by code_simp

end
